theory Spec2Isabelle
  imports Main "HOL-Library.Sublist"
begin

section \<open>Go values, errors and outcomes\<close>

text \<open>
  A Go \<^verbatim>\<open>error\<close> is a message, possibly wrapping another error:
  \<^verbatim>\<open>errors.New(s)\<close> and \<^verbatim>\<open>fmt.Errorf\<close> without \<^verbatim>\<open>%w\<close> give an \<open>ErrorString\<close>,
  \<^verbatim>\<open>fmt.Errorf\<close> with one \<^verbatim>\<open>%w\<close> gives a \<open>WrapError\<close> holding the formatted message
  and the wrapped error. Errors returned by collaborators (units, tools, planners) are
  values of the same type.
\<close>

datatype error = ErrorString string | WrapError string error

fun Error :: "error \<Rightarrow> string" where
  "Error (ErrorString s) = s"
| "Error (WrapError msg _) = msg"

fun Unwrap :: "error \<Rightarrow> error option" where
  "Unwrap (ErrorString _) = None"
| "Unwrap (WrapError _ err) = Some err"

text \<open>The verb \<^verbatim>\<open>%d\<close>: decimal digits, with a sign for negative numbers.\<close>

definition digit_char :: "nat \<Rightarrow> char" where
  "digit_char d = ''0123456789'' ! (d mod 10)"

fun show_nat :: "nat \<Rightarrow> string" where
  "show_nat n = (if n < 10 then [digit_char n] else show_nat (n div 10) @ [digit_char n])"

declare show_nat.simps [simp del]

definition show_int :: "int \<Rightarrow> string" where
  "show_int i = (if i < 0 then CHR ''-'' # show_nat (nat (- i)) else show_nat (nat i))"

text \<open>
  A value of the interface type \<^verbatim>\<open>any\<close> is either the nil interface or holds a dynamic
  value. A Go type \<open>T\<close> is described by the dynamic values a type assertion to \<open>T\<close>
  accepts and by its zero value converted to \<^verbatim>\<open>any\<close> (the nil interface when \<open>T\<close> is an
  interface type). The type assertion \<^verbatim>\<open>x.(T)\<close> fails on the nil interface whatever
  \<open>T\<close> is.
\<close>

datatype 'v any = AnyNil | AnyVal 'v

record 'v gotype =
  holds :: "'v \<Rightarrow> bool"
  zero :: "'v any"

definition type_assert :: "'v gotype \<Rightarrow> 'v any \<Rightarrow> bool" where
  "type_assert T x = (case x of AnyNil \<Rightarrow> False | AnyVal v \<Rightarrow> holds T v)"

definition any_type :: "'v gotype" where
  "any_type = \<lparr>holds = (\<lambda>_. True), zero = AnyNil\<rparr>"

text \<open>
  A call returns a value, returns a non-nil error, or panics. A panic is not an error
  value: no \<^verbatim>\<open>if err != nil\<close> sees it, it unwinds every caller.
\<close>

datatype 'a outcome = Ok 'a | Failed error | Panicked string

text \<open>
  \<^verbatim>\<open>core.Runnable[I, O]\<close>, as far as the composition primitives use it: its name and
  its \<^verbatim>\<open>Invoke\<close>. The values are type-erased, the unit may read and change the state
  of the world \<open>'s\<close>.
\<close>

record ('v, 's) Runnable =
  GetName :: string
  Invoke :: "'v any \<Rightarrow> 's \<Rightarrow> 'v any outcome \<times> 's"

section \<open>Sequence (runnable/sequence.go)\<close>

record ('v, 's) step =
  name :: string
  invoke :: "'v any \<Rightarrow> 's \<Rightarrow> 'v any outcome \<times> 's"

text \<open>\<^verbatim>\<open>Sequence[I, O]\<close>; the type parameter \<open>O\<close> is the field \<open>out_type\<close>.\<close>

record ('v, 's) Sequence =
  steps :: "('v, 's) step list"
  seq_name :: string
  out_type :: "'v gotype"

text \<open>\<^verbatim>\<open>fmt.Errorf("step %d (%s): %w", i, st.name, err)\<close>\<close>

definition step_error :: "nat \<Rightarrow> string \<Rightarrow> error \<Rightarrow> error" where
  "step_error i nm err =
     WrapError (''step '' @ show_nat i @ '' ('' @ nm @ ''): '' @ Error err) err"

text \<open>
  \<^verbatim>\<open>fmt.Errorf("final step output type mismatch: got %T, want %T", current, zero)\<close>;
  the verb \<^verbatim>\<open>%T\<close> of the Go library is the parameter \<open>fmtT\<close>.
\<close>

definition final_mismatch :: "('v any \<Rightarrow> string) \<Rightarrow> 'v any \<Rightarrow> 'v any \<Rightarrow> error" where
  "final_mismatch fmtT current z =
     ErrorString (''final step output type mismatch: got '' @ fmtT current @
                  '', want '' @ fmtT z)"

text \<open>
  The loop of \<^verbatim>\<open>Sequence.Invoke\<close> from step index \<open>i\<close> on. Beside the state of the
  world it carries the list of the indices of the steps it has invoked, in order.
\<close>

fun run_steps ::
  "('v, 's) step list \<Rightarrow> nat \<Rightarrow> 'v any \<Rightarrow> 's \<times> nat list \<Rightarrow> 'v any outcome \<times> 's \<times> nat list"
where
  "run_steps [] i current (s, tr) = (Ok current, s, tr)"
| "run_steps (st # rest) i current (s, tr) =
     (case invoke st current s of
        (Ok result, s') \<Rightarrow> run_steps rest (Suc i) result (s', tr @ [i])
      | (Failed err, s') \<Rightarrow> (Failed (step_error i (name st) err), s', tr @ [i])
      | (Panicked m, s') \<Rightarrow> (Panicked m, s', tr @ [i]))"

definition Sequence_Invoke ::
  "('v any \<Rightarrow> string) \<Rightarrow> ('v, 's) Sequence \<Rightarrow> 'v any \<Rightarrow> 's \<Rightarrow> 'v any outcome \<times> 's \<times> nat list"
where
  "Sequence_Invoke fmtT sq input s =
     (case run_steps (steps sq) 0 input (s, []) of
        (Ok current, w) \<Rightarrow>
          if type_assert (out_type sq) current then (Ok current, w)
          else (Failed (final_mismatch fmtT current (zero (out_type sq))), w)
      | (Failed err, w) \<Rightarrow> (Failed err, w)
      | (Panicked m, w) \<Rightarrow> (Panicked m, w))"

text \<open>
  The wrapper \<^verbatim>\<open>first.Invoke(ctx, input.(A), opts...)\<close> of the fixed-arity builders:
  the unchecked type assertion panics when it fails.
\<close>

definition typed_step :: "'v gotype \<Rightarrow> ('v, 's) Runnable \<Rightarrow> ('v, 's) step" where
  "typed_step A r =
     \<lparr>name = GetName r,
      invoke = (\<lambda>input s. if type_assert A input then Invoke r input s
                           else (Panicked ''interface conversion'', s))\<rparr>"

definition Pipe2 ::
  "'v gotype \<Rightarrow> 'v gotype \<Rightarrow> 'v gotype \<Rightarrow> ('v, 's) Runnable \<Rightarrow> ('v, 's) Runnable \<Rightarrow> ('v, 's) Sequence"
where
  "Pipe2 A B C first second =
     \<lparr>steps = [typed_step A first, typed_step B second], seq_name = [], out_type = C\<rparr>"

definition Pipe3 ::
  "'v gotype \<Rightarrow> 'v gotype \<Rightarrow> 'v gotype \<Rightarrow> 'v gotype \<Rightarrow>
   ('v, 's) Runnable \<Rightarrow> ('v, 's) Runnable \<Rightarrow> ('v, 's) Runnable \<Rightarrow> ('v, 's) Sequence"
where
  "Pipe3 A B C D first second third =
     \<lparr>steps = [typed_step A first, typed_step B second, typed_step C third],
      seq_name = [], out_type = D\<rparr>"

text \<open>The variadic builder: no assertion, the steps take and give \<^verbatim>\<open>any\<close>.\<close>

definition Pipe :: "('v, 's) Runnable list \<Rightarrow> ('v, 's) Sequence" where
  "Pipe runnables =
     \<lparr>steps = map (\<lambda>r. \<lparr>name = GetName r, invoke = Invoke r\<rparr>) runnables,
      seq_name = [], out_type = any_type\<rparr>"

text \<open>\<^verbatim>\<open>Passthrough[T].Invoke\<close> (runnable/passthrough.go) returns its input.\<close>

definition Passthrough :: "('v, 's) Runnable" where
  "Passthrough = \<lparr>GetName = ''RunnablePassthrough'', Invoke = (\<lambda>input s. (Ok input, s))\<rparr>"

text \<open>A pure unit: it computes \<open>f\<close>, returns no error and leaves the world as it is.\<close>

definition pure_unit :: "string \<Rightarrow> ('v any \<Rightarrow> 'v any) \<Rightarrow> ('v, 's) Runnable" where
  "pure_unit nm f = \<lparr>GetName = nm, Invoke = (\<lambda>input s. (Ok (f input), s))\<rparr>"

text \<open>Dynamic values for the examples: Go's \<^verbatim>\<open>int\<close> and \<^verbatim>\<open>string\<close>.\<close>

datatype dyn = DInt int | DStr string

fun is_int :: "dyn \<Rightarrow> bool" where
  "is_int (DInt _) = True"
| "is_int (DStr _) = False"

fun is_string :: "dyn \<Rightarrow> bool" where
  "is_string (DStr _) = True"
| "is_string (DInt _) = False"

definition int_type :: "dyn gotype" where
  "int_type = \<lparr>holds = is_int, zero = AnyVal (DInt 0)\<rparr>"

definition string_type :: "dyn gotype" where
  "string_type = \<lparr>holds = is_string, zero = AnyVal (DStr [])\<rparr>"

fun dyn_fmtT :: "dyn any \<Rightarrow> string" where
  "dyn_fmtT AnyNil = ''<nil>''"
| "dyn_fmtT (AnyVal (DInt _)) = ''int''"
| "dyn_fmtT (AnyVal (DStr _)) = ''string''"


definition to_string_unit :: "(dyn, 's) Runnable" where
  "to_string_unit = pure_unit ''toString'' (\<lambda>_. AnyVal (DStr ''x''))"

text \<open>
  A unit written for integers: \<^verbatim>\<open>n, _ := input.(int); return n + 1, nil\<close>.
\<close>

definition add_one_unit :: "(dyn, 's) Runnable" where
  "add_one_unit =
     pure_unit ''addOne''
       (\<lambda>input. case input of AnyVal (DInt n) \<Rightarrow> AnyVal (DInt (n + 1)) | _ \<Rightarrow> AnyVal (DInt 1))"

definition failing_unit :: "string \<Rightarrow> error \<Rightarrow> ('v, 's) Runnable" where
  "failing_unit nm err = \<lparr>GetName = nm, Invoke = (\<lambda>input s. (Failed err, s))\<rparr>"

text \<open>
  Reference semantics of a pipeline with no check between its stages: every unit gets
  the output of the unit before it as it is, and the first unit that does not return a
  value ends the run.
\<close>

fun compose_units :: "('v, 's) Runnable list \<Rightarrow> 'v any \<Rightarrow> 's \<Rightarrow> 'v any outcome \<times> 's" where
  "compose_units [] x s = (Ok x, s)"
| "compose_units (r # rs) x s =
     (case Invoke r x s of
        (Ok y, s') \<Rightarrow> compose_units rs y s'
      | (Failed e, s') \<Rightarrow> (Failed e, s')
      | (Panicked m, s') \<Rightarrow> (Panicked m, s'))"

section \<open>Branch (runnable/branch.go)\<close>

text \<open>
  A condition is a Go function \<^verbatim>\<open>func(input I) bool\<close>; like every call it may read and
  change the world.
\<close>

record ('v, 's) BranchCondition =
  Condition :: "'v any \<Rightarrow> 's \<Rightarrow> bool \<times> 's"
  Runnable :: "('v, 's) Runnable"

text \<open>A nil \<^verbatim>\<open>defaultBranch\<close> is \<open>None\<close>.\<close>

record ('v, 's) Branch =
  conditions :: "('v, 's) BranchCondition list"
  defaultBranch :: "('v, 's) Runnable option"
  branch_name :: string

definition NewBranch ::
  "('v, 's) BranchCondition list \<Rightarrow> ('v, 's) Runnable option \<Rightarrow> ('v, 's) Branch"
where
  "NewBranch conds dflt = \<lparr>conditions = conds, defaultBranch = dflt, branch_name = []\<rparr>"

text \<open>
  What \<^verbatim>\<open>Branch.Invoke\<close> calls, in order: the condition of the pair at an index, the
  unit of the pair at an index, the default unit.
\<close>

datatype branch_event = CondEval nat | RunBranch nat | RunDefault

definition no_branch_matched :: error where
  "no_branch_matched = ErrorString ''no branch condition matched and no default branch provided''"

text \<open>
  The loop over \<^verbatim>\<open>b.conditions\<close> from index \<open>i\<close> on, followed by the code after the
  loop (the default unit, or the error).
\<close>

fun branch_loop ::
  "('v, 's) BranchCondition list \<Rightarrow> nat \<Rightarrow> ('v, 's) Runnable option \<Rightarrow> 'v any \<Rightarrow>
   's \<times> branch_event list \<Rightarrow> 'v any outcome \<times> 's \<times> branch_event list"
where
  "branch_loop [] i dflt input (s, tr) =
     (case dflt of
        Some d \<Rightarrow> (case Invoke d input s of (res, s') \<Rightarrow> (res, s', tr @ [RunDefault]))
      | None \<Rightarrow> (Failed no_branch_matched, s, tr))"
| "branch_loop (cond # rest) i dflt input (s, tr) =
     (case Condition cond input s of
        (matched, s') \<Rightarrow>
          if matched
          then (case Invoke (Runnable cond) input s' of
                  (res, s'') \<Rightarrow> (res, s'', tr @ [CondEval i, RunBranch i]))
          else branch_loop rest (Suc i) dflt input (s', tr @ [CondEval i]))"

definition Branch_Invoke ::
  "('v, 's) Branch \<Rightarrow> 'v any \<Rightarrow> 's \<Rightarrow> 'v any outcome \<times> 's \<times> branch_event list"
where
  "Branch_Invoke b input s = branch_loop (conditions b) 0 (defaultBranch b) input (s, [])"

text \<open>
  Every condition of the list, evaluated in order from the state \<open>s\<close>, returns false;
  the result is the state after the last of them.
\<close>

fun conds_false :: "('v, 's) BranchCondition list \<Rightarrow> 'v any \<Rightarrow> 's \<Rightarrow> 's option" where
  "conds_false [] input s = Some s"
| "conds_false (cond # rest) input s =
     (case Condition cond input s of
        (matched, s') \<Rightarrow> if matched then None else conds_false rest input s')"

text \<open>Units and conditions on integers for the examples.\<close>

definition label_unit :: "string \<Rightarrow> (dyn, 's) Runnable" where
  "label_unit nm = pure_unit nm (\<lambda>_. AnyVal (DStr nm))"

fun int_of_any :: "dyn any \<Rightarrow> int" where
  "int_of_any (AnyVal (DInt n)) = n"
| "int_of_any (AnyVal (DStr _)) = 0"
| "int_of_any AnyNil = 0"

definition is_positive :: "dyn any \<Rightarrow> 's \<Rightarrow> bool \<times> 's" where
  "is_positive input s = (0 < int_of_any input, s)"

definition is_negative :: "dyn any \<Rightarrow> 's \<Rightarrow> bool \<times> 's" where
  "is_negative input s = (int_of_any input < 0, s)"

definition is_big :: "dyn any \<Rightarrow> 's \<Rightarrow> bool \<times> 's" where
  "is_big input s = (100 < int_of_any input, s)"

section \<open>StreamIterator (core/runnable.go)\<close>

text \<open>
  \<^verbatim>\<open>StreamChunk[T]\<close>: a value and an error that may be nil.
\<close>

record 'a StreamChunk =
  Value :: 'a
  Err :: "error option"

text \<open>
  The receiving end of the channel, seen from the consumer: the chunks the producer
  still sends, in order, and whether the producer closes the channel after the last of
  them. A receive takes the next chunk; on a closed and drained channel it returns at
  once with \<^verbatim>\<open>ok = false\<close>; on a drained channel that is never closed it blocks for ever.
\<close>

record 'a channel =
  sends :: "'a StreamChunk list"
  closes :: bool

datatype 'a received = Received 'a | ChannelClosed | Blocked

definition receive :: "'a channel \<Rightarrow> 'a StreamChunk received \<times> 'a channel" where
  "receive c =
     (case sends c of
        chunk # rest \<Rightarrow> (Received chunk, c\<lparr>sends := rest\<rparr>)
      | [] \<Rightarrow> if closes c then (ChannelClosed, c) else (Blocked, c))"

text \<open>
  The fields of \<^verbatim>\<open>StreamIterator[T]\<close>; \<open>done_closed\<close> tells whether the channel
  \<^verbatim>\<open>done\<close> has been closed.
\<close>

record 'a StreamIterator =
  ch :: "'a channel"
  done_closed :: bool
  closed :: bool

definition NewStreamIterator :: "'a channel \<Rightarrow> 'a StreamIterator" where
  "NewStreamIterator c = \<lparr>ch = c, done_closed = False, closed = False\<rparr>"

text \<open>
  \<^verbatim>\<open>Next\<close> returns \<^verbatim>\<open>(value, hasMore, err)\<close>; the result \<open>None\<close> is a call that never
  returns. The parameter \<open>z\<close> is the zero value of \<open>T\<close>.
\<close>

definition Next ::
  "'a \<Rightarrow> 'a StreamIterator \<Rightarrow> ('a \<times> bool \<times> error option) option \<times> 'a StreamIterator"
where
  "Next z it =
     (if closed it then (Some (z, False, None), it)
      else
        (case receive (ch it) of
           (Blocked, c') \<Rightarrow> (None, it)
         | (ChannelClosed, c') \<Rightarrow> (Some (z, False, None), it\<lparr>ch := c'\<rparr>)
         | (Received chunk, c') \<Rightarrow>
             (case Err chunk of
                Some e \<Rightarrow> (Some (z, False, Some e), it\<lparr>ch := c'\<rparr>)
              | None \<Rightarrow> (Some (Value chunk, True, None), it\<lparr>ch := c'\<rparr>))))"

text \<open>
  \<^verbatim>\<open>Close\<close> sets the flag and closes \<^verbatim>\<open>done\<close> once; the goroutine it starts only takes
  from the channel what \<^verbatim>\<open>Next\<close>, seeing the flag, no longer reads.
\<close>

definition Close :: "'a StreamIterator \<Rightarrow> 'a StreamIterator" where
  "Close it = (if \<not> closed it then it\<lparr>closed := True, done_closed := True\<rparr> else it)"

text \<open>The results of \<open>n\<close> calls of \<^verbatim>\<open>Next\<close> in a row; nothing follows a call that blocks.\<close>

fun Nexts :: "nat \<Rightarrow> 'a \<Rightarrow> 'a StreamIterator \<Rightarrow> ('a \<times> bool \<times> error option) option list" where
  "Nexts 0 z it = []"
| "Nexts (Suc n) z it =
     (case Next z it of
        (None, it') \<Rightarrow> [None]
      | (Some r, it') \<Rightarrow> Some r # Nexts n z it')"

section \<open>Parallel (runnable/parallel.go)\<close>

text \<open>
  The branch functions have the type \<^verbatim>\<open>func(ctx, input I, opts) (any, error)\<close>. They
  run in goroutines of their own, so here a branch function is a function of the input
  alone: what the goroutines do to a state they share is outside this model.
\<close>

record ('i, 'v) Parallel =
  branches :: "string \<rightharpoonup> ('i \<Rightarrow> error + 'v)"
  keys :: "string list"
  par_name :: string

text \<open>
  \<^verbatim>\<open>NewParallelAny\<close> fills \<^verbatim>\<open>keys\<close> by \<^verbatim>\<open>for k := range branches\<close>. The order in which
  Go ranges over a map is not specified; \<open>order\<close> is the order of that run. It lists
  every key of the map once, which is what \<open>range_order\<close> says.
\<close>

definition range_order :: "('k \<rightharpoonup> 'a) \<Rightarrow> 'k list \<Rightarrow> bool" where
  "range_order m order = (distinct order \<and> set order = dom m)"

definition NewParallelAny ::
  "(string \<rightharpoonup> ('i \<Rightarrow> error + 'v)) \<Rightarrow> string list \<Rightarrow> ('i, 'v) Parallel"
where
  "NewParallelAny m order = \<lparr>branches = m, keys = order, par_name = []\<rparr>"

text \<open>\<^verbatim>\<open>fmt.Errorf("parallel branch %q: %w", k, err)\<close>; \<open>fmtq\<close> is the verb \<^verbatim>\<open>%q\<close>.\<close>

definition branch_error :: "(string \<Rightarrow> string) \<Rightarrow> string \<Rightarrow> error \<Rightarrow> error" where
  "branch_error fmtq k err =
     WrapError (''parallel branch '' @ fmtq k @ '': '' @ Error err) err"

text \<open>
  What the goroutine of a key computes: \<^verbatim>\<open>fn := p.branches[key]\<close> and the call of
  \<open>fn\<close>. A key with no entry gives the nil function, and calling it panics.
\<close>

definition goroutine :: "('i, 'v) Parallel \<Rightarrow> 'i \<Rightarrow> string \<Rightarrow> 'v outcome" where
  "goroutine p input key =
     (case branches p key of
        None \<Rightarrow> Panicked ''nil func''
      | Some fn \<Rightarrow> (case fn input of Inl err \<Rightarrow> Failed err | Inr result \<Rightarrow> Ok result))"

text \<open>
  The maps \<^verbatim>\<open>results\<close> and \<^verbatim>\<open>errs\<close> after \<^verbatim>\<open>wg.Wait()\<close>. Every goroutine writes one
  entry, under the mutex, at its own key; the writes are taken here in the order of
  \<^verbatim>\<open>keys\<close>.
\<close>

fun collect ::
  "(string \<times> 'v outcome) list \<Rightarrow> (string \<rightharpoonup> 'v) \<times> (string \<rightharpoonup> error) \<Rightarrow>
   (string \<rightharpoonup> 'v) \<times> (string \<rightharpoonup> error)"
where
  "collect [] (results, errs) = (results, errs)"
| "collect ((key, r) # rest) (results, errs) =
     (case r of
        Ok result \<Rightarrow> collect rest (results(key \<mapsto> result), errs)
      | Failed err \<Rightarrow> collect rest (results, errs(key \<mapsto> err))
      | Panicked m \<Rightarrow> collect rest (results, errs))"

fun is_panic :: "'a outcome \<Rightarrow> bool" where
  "is_panic (Panicked _) = True"
| "is_panic (Ok _) = False"
| "is_panic (Failed _) = False"

text \<open>
  \<^verbatim>\<open>Parallel.Invoke\<close>. The semaphore sized by \<^verbatim>\<open>cfg.MaxConcurrency\<close> bounds how many
  branches run at a time and has no part in the result. \<^verbatim>\<open>for k, err := range errs\<close>
  returns at the first entry that the range yields, and any entry of \<^verbatim>\<open>errs\<close> can be the
  first: the model gives the set of the results the call can have.
\<close>

definition Parallel_Invoke ::
  "(string \<Rightarrow> string) \<Rightarrow> ('i, 'v) Parallel \<Rightarrow> 'i \<Rightarrow> (string \<rightharpoonup> 'v) outcome set"
where
  "Parallel_Invoke fmtq p input =
     (let outs = map (\<lambda>key. (key, goroutine p input key)) (keys p) in
      if list_ex (\<lambda>(key, r). is_panic r) outs then {Panicked ''nil func''}
      else
        (case collect outs (Map.empty, Map.empty) of
           (results, errs) \<Rightarrow>
             if list_ex (\<lambda>key. errs key \<noteq> None) (keys p)
             then set (concat (map (\<lambda>key. case errs key of
                                            None \<Rightarrow> []
                                          | Some err \<Rightarrow> [Failed (branch_error fmtq key err)])
                                   (keys p)))
             else {Ok results}))"

text \<open>The verb \<^verbatim>\<open>%q\<close> on a string that needs no escape: the string in double quotes.\<close>

definition plain_quote :: "string \<Rightarrow> string" where
  "plain_quote s = [CHR 0x22] @ s @ [CHR 0x22]"

text \<open>
  The verb \<^verbatim>\<open>%q\<close> on a string, as \<^verbatim>\<open>strconv.Quote\<close> of the Go library does it, byte by
  byte: the double quote and the backslash get a backslash, the control characters
  their escape (\<^verbatim>\<open>\a \b \f \n \r \t \v\<close>, else \<^verbatim>\<open>\x\<close> and two hexadecimal digits), every
  other character of ASCII stands for itself, and the result is put in double quotes.
  A byte from 0x80 on is kept as it is, as Go keeps the printable characters that such
  bytes encode.
\<close>

definition hex_digit :: "nat \<Rightarrow> char" where
  "hex_digit d = ''0123456789abcdef'' ! (d mod 16)"

definition quote_char :: "char \<Rightarrow> string" where
  "quote_char c =
     (if c = CHR 0x22 then [CHR 0x5C, CHR 0x22]
      else if c = CHR 0x5C then [CHR 0x5C, CHR 0x5C]
      else if c = CHR 0x07 then [CHR 0x5C, CHR ''a'']
      else if c = CHR 0x08 then [CHR 0x5C, CHR ''b'']
      else if c = CHR 0x0C then [CHR 0x5C, CHR ''f'']
      else if c = CHR 0x0A then [CHR 0x5C, CHR ''n'']
      else if c = CHR 0x0D then [CHR 0x5C, CHR ''r'']
      else if c = CHR 0x09 then [CHR 0x5C, CHR ''t'']
      else if c = CHR 0x0B then [CHR 0x5C, CHR ''v'']
      else if (of_char c :: nat) < 0x20 \<or> c = CHR 0x7F
        then [CHR 0x5C, CHR ''x'', hex_digit (of_char c div 16), hex_digit (of_char c)]
      else [c])"

definition go_quote :: "string \<Rightarrow> string" where
  "go_quote s = [CHR 0x22] @ concat (map quote_char s) @ [CHR 0x22]"

text \<open>
  What the branch of a key returns on the input, split into the value of a branch that
  succeeds and the error of a branch that fails.
\<close>

definition branch_value :: "(string \<rightharpoonup> ('i \<Rightarrow> error + 'v)) \<Rightarrow> 'i \<Rightarrow> string \<rightharpoonup> 'v" where
  "branch_value m input k =
     (case m k of None \<Rightarrow> None
      | Some fn \<Rightarrow> (case fn input of Inl e \<Rightarrow> None | Inr v \<Rightarrow> Some v))"

definition branch_failure :: "(string \<rightharpoonup> ('i \<Rightarrow> error + 'v)) \<Rightarrow> 'i \<Rightarrow> string \<rightharpoonup> error" where
  "branch_failure m input k =
     (case m k of None \<Rightarrow> None
      | Some fn \<Rightarrow> (case fn input of Inl e \<Rightarrow> Some e | Inr v \<Rightarrow> None))"

text \<open>Two maps of branches for the examples.\<close>

definition both_succeed :: "string \<rightharpoonup> (int \<Rightarrow> error + int)" where
  "both_succeed = [''a'' \<mapsto> (\<lambda>x. Inr (x + 1)), ''b'' \<mapsto> (\<lambda>x. Inr (2 * x))]"

definition one_fails :: "string \<rightharpoonup> (int \<Rightarrow> error + int)" where
  "one_fails = [''a'' \<mapsto> (\<lambda>x. Inr (x + 1)), ''b'' \<mapsto> (\<lambda>x. Inl (ErrorString ''boom''))]"

section \<open>Assign (runnable/passthrough.go)\<close>

text \<open>
  A Go map is a reference: \<^verbatim>\<open>Assign.Invoke\<close> gets the input map by reference, makes a
  map of its own and returns that. The heap is the list of the maps made so far, a
  reference is an index into it, and \<^verbatim>\<open>make(map[string]any)\<close> appends an empty map.
  The input of type \<open>I\<close> is a reference to a \<^verbatim>\<open>map[string]any\<close>, the nil map of that type,
  or a value of another type.
\<close>

type_synonym 'v heap = "(string \<rightharpoonup> 'v) list"

datatype 'x assign_input = MapRef nat | NilMap | NotMap 'x

text \<open>
  What an addition function can see of its input: the entries of the map behind the
  reference. The addition functions are functions of that; they do not write to it.
\<close>

datatype ('v, 'x) input_value = MapValue "string \<rightharpoonup> 'v" | NilMapValue | OtherValue 'x

fun deref :: "'x assign_input \<Rightarrow> 'v heap \<Rightarrow> ('v, 'x) input_value" where
  "deref (MapRef src) h = MapValue (h ! src)"
| "deref NilMap h = NilMapValue"
| "deref (NotMap x) h = OtherValue x"

text \<open>A reference held by a Go value is the address of a map that exists.\<close>

fun valid_input :: "'x assign_input \<Rightarrow> 'v heap \<Rightarrow> bool" where
  "valid_input (MapRef src) h = (src < length h)"
| "valid_input NilMap h = True"
| "valid_input (NotMap x) h = True"

record ('v, 'x) Assign =
  additions :: "string \<rightharpoonup> (('v, 'x) input_value \<Rightarrow> error + 'v)"
  assign_keys :: "string list"
  assign_name :: string

text \<open>\<^verbatim>\<open>NewAssign\<close> fills the field \<^verbatim>\<open>keys\<close> by a range over the map, in the order \<open>order\<close>.\<close>

definition NewAssign ::
  "(string \<rightharpoonup> (('v, 'x) input_value \<Rightarrow> error + 'v)) \<Rightarrow> string list \<Rightarrow> ('v, 'x) Assign"
where
  "NewAssign adds order = \<lparr>additions = adds, assign_keys = order, assign_name = []\<rparr>"

text \<open>
  The loop \<^verbatim>\<open>for _, key := range a.keys\<close>; \<open>result\<close> is the address of the map being
  filled.
\<close>

fun assign_loop ::
  "string list \<Rightarrow> (string \<rightharpoonup> (('v, 'x) input_value \<Rightarrow> error + 'v)) \<Rightarrow> 'x assign_input \<Rightarrow>
   nat \<Rightarrow> 'v heap \<Rightarrow> unit outcome \<times> 'v heap"
where
  "assign_loop [] adds input result h = (Ok (), h)"
| "assign_loop (key # rest) adds input result h =
     (case adds key of
        None \<Rightarrow> (Panicked ''nil func'', h)
      | Some fn \<Rightarrow>
          (case fn (deref input h) of
             Inl err \<Rightarrow> (Failed err, h)
           | Inr val \<Rightarrow> assign_loop rest adds input result (h[result := (h ! result)(key \<mapsto> val)])))"

text \<open>
  \<^verbatim>\<open>Assign.Invoke\<close> returns the address of the new map, or the error with the nil map.
  The range over the input map writes each of its entries to the new map.
\<close>

definition Assign_Invoke ::
  "('v, 'x) Assign \<Rightarrow> 'x assign_input \<Rightarrow> 'v heap \<Rightarrow> nat outcome \<times> 'v heap"
where
  "Assign_Invoke a input h =
     (let result = length h;
          h1 = h @ [Map.empty];
          h2 = (case input of
                  MapRef src \<Rightarrow> h1[result := (h1 ! result) ++ (h1 ! src)]
                | NilMap \<Rightarrow> h1
                | NotMap x \<Rightarrow> h1)
      in case assign_loop (assign_keys a) (additions a) input result h2 of
           (Ok u, h3) \<Rightarrow> (Ok result, h3)
         | (Failed err, h3) \<Rightarrow> (Failed err, h3)
         | (Panicked m, h3) \<Rightarrow> (Panicked m, h3))"

text \<open>
  What the addition function of a key returns on the input: its value when it succeeds,
  its error when it fails.
\<close>

definition addition_value ::
  "(string \<rightharpoonup> ('i \<Rightarrow> error + 'v)) \<Rightarrow> 'i \<Rightarrow> string \<rightharpoonup> 'v"
where
  "addition_value adds input k =
     (case adds k of None \<Rightarrow> None
      | Some fn \<Rightarrow> (case fn input of Inl e \<Rightarrow> None | Inr v \<Rightarrow> Some v))"

definition addition_failure ::
  "(string \<rightharpoonup> ('i \<Rightarrow> error + 'v)) \<Rightarrow> 'i \<Rightarrow> string \<rightharpoonup> error"
where
  "addition_failure adds input k =
     (case adds k of None \<Rightarrow> None
      | Some fn \<Rightarrow> (case fn input of Inl e \<Rightarrow> Some e | Inr v \<Rightarrow> None))"

text \<open>Additions and an input map for the examples.\<close>

definition overwrite_a :: "string \<rightharpoonup> ((int, unit) input_value \<Rightarrow> error + int)" where
  "overwrite_a = [''a'' \<mapsto> (\<lambda>_. Inr 2)]"

definition add_context :: "string \<rightharpoonup> ((int, unit) input_value \<Rightarrow> error + int)" where
  "add_context = [''context'' \<mapsto> (\<lambda>_. Inr 7)]"

definition failing_addition :: "string \<rightharpoonup> ((int, unit) input_value \<Rightarrow> error + int)" where
  "failing_addition = [''context'' \<mapsto> (\<lambda>_. Inl (ErrorString ''no retriever''))]"

definition input_heap :: "int heap" where
  "input_heap = [[''a'' \<mapsto> 1]]"

section \<open>AgentExecutor (agents/executor.go, agents/types.go)\<close>

text \<open>
  The data of \<^verbatim>\<open>agents/types.go\<close>. The field \<^verbatim>\<open>MessageLog\<close> of an action and of a finish
  is left out: the executor neither reads nor writes it. The values of a
  \<^verbatim>\<open>map[string]any\<close> are the caller's values or, under \<^verbatim>\<open>"intermediate_steps"\<close>, a
  list of steps. A nil map is \<open>None\<close>.
\<close>

record AgentAction =
  Tool :: string
  ToolInput :: string
  Log :: string

record AgentStep =
  Action :: AgentAction
  Observation :: string

datatype 'v map_value = Plain 'v | Steps "AgentStep list"

type_synonym 'v gomap = "(string \<rightharpoonup> 'v map_value) option"

record 'v AgentFinish =
  ReturnValues :: "'v gomap"
  FinishLog :: string

text \<open>\<^verbatim>\<open>AgentOutput\<close>: a nil \<^verbatim>\<open>Finish\<close> pointer is \<open>None\<close>.\<close>

record 'v AgentOutput =
  Actions :: "AgentAction list"
  Finish :: "'v AgentFinish option"

text \<open>
  \<^verbatim>\<open>Agent.Plan\<close> returns \<^verbatim>\<open>(*AgentOutput, error)\<close>: an error, or a pointer that may be nil.
\<close>

record ('v, 's) Agent =
  Plan :: "AgentStep list \<Rightarrow> 'v gomap \<Rightarrow> 's \<Rightarrow> (error + 'v AgentOutput option) \<times> 's"

text \<open>\<^verbatim>\<open>tools.Tool\<close>, as far as the executor uses it.\<close>

record 's Tool =
  Name :: string
  Run :: "string \<Rightarrow> 's \<Rightarrow> (error + string) \<times> 's"

text \<open>
  The hooks of \<^verbatim>\<open>core.CallbackHandler\<close> that the executor calls, with their arguments
  (the last string is the run identifier). A handler is what it does to the world on
  each of them.
\<close>

datatype 'v cb_event =
    OnChainStart "'v gomap" string string
  | OnChainEnd "'v gomap" string
  | OnChainError error string
  | OnAgentAction string string string string
  | OnAgentFinish "'v gomap" string string
  | OnToolStart string string string
  | OnToolEnd string string
  | OnToolError error string

text \<open>The fields of \<^verbatim>\<open>core.RunnableConfig\<close> that the executor reads.\<close>

record ('v, 's) RunnableConfig =
  Callbacks :: "('v cb_event \<Rightarrow> 's \<Rightarrow> 's) list"
  RunID :: string

text \<open>\<^verbatim>\<open>for _, cb := range cfg.Callbacks { cb.Hook(...) }\<close>\<close>

fun notify :: "('v cb_event \<Rightarrow> 's \<Rightarrow> 's) list \<Rightarrow> 'v cb_event \<Rightarrow> 's \<Rightarrow> 's" where
  "notify [] ev s = s"
| "notify (cb # cbs) ev s = notify cbs ev (cb ev s)"

text \<open>
  The loop at the finish calls two hooks of a handler before it goes to the next
  handler.
\<close>

fun notify2 ::
  "('v cb_event \<Rightarrow> 's \<Rightarrow> 's) list \<Rightarrow> 'v cb_event \<Rightarrow> 'v cb_event \<Rightarrow> 's \<Rightarrow> 's"
where
  "notify2 [] ev1 ev2 s = s"
| "notify2 (cb # cbs) ev1 ev2 s = notify2 cbs ev1 ev2 (cb ev2 (cb ev1 s))"

record ('v, 's) AgentExecutor =
  agent :: "('v, 's) Agent"
  tools :: "'s Tool list"
  toolMap :: "string \<rightharpoonup> 's Tool"
  maxIterations :: int
  returnIntermediateSteps :: bool
  handleParsingErrors :: bool
  executor_name :: string

definition NewAgentExecutor ::
  "('v, 's) Agent \<Rightarrow> 's Tool list \<Rightarrow> (('v, 's) AgentExecutor \<Rightarrow> ('v, 's) AgentExecutor) list \<Rightarrow>
   ('v, 's) AgentExecutor"
where
  "NewAgentExecutor a agentTools options =
     foldl (\<lambda>exec opt. opt exec)
       \<lparr>agent = a, tools = agentTools,
        toolMap = foldl (\<lambda>m t. m(Name t \<mapsto> t)) Map.empty agentTools,
        maxIterations = 15, returnIntermediateSteps = False, handleParsingErrors = False,
        executor_name = []\<rparr>
       options"

definition WithMaxIterations :: "int \<Rightarrow> ('v, 's) AgentExecutor \<Rightarrow> ('v, 's) AgentExecutor" where
  "WithMaxIterations n e = e\<lparr>maxIterations := n\<rparr>"

definition WithReturnIntermediateSteps ::
  "bool \<Rightarrow> ('v, 's) AgentExecutor \<Rightarrow> ('v, 's) AgentExecutor"
where
  "WithReturnIntermediateSteps v e = e\<lparr>returnIntermediateSteps := v\<rparr>"

definition WithHandleParsingErrors ::
  "bool \<Rightarrow> ('v, 's) AgentExecutor \<Rightarrow> ('v, 's) AgentExecutor"
where
  "WithHandleParsingErrors v e = e\<lparr>handleParsingErrors := v\<rparr>"

definition executor_GetName :: "('v, 's) AgentExecutor \<Rightarrow> string" where
  "executor_GetName e = (if executor_name e \<noteq> [] then executor_name e else ''AgentExecutor'')"

text \<open>\<^verbatim>\<open>strings.Join\<close>\<close>

fun Join :: "string list \<Rightarrow> string \<Rightarrow> string" where
  "Join [] sep = []"
| "Join [x] sep = x"
| "Join (x # y # ys) sep = x @ sep @ Join (y # ys) sep"

definition availableToolNames :: "('v, 's) AgentExecutor \<Rightarrow> string" where
  "availableToolNames e = Join (map Name (tools e)) '', ''"

text \<open>
  The three formatted strings of the loop; \<open>fmtq\<close> is the verb \<^verbatim>\<open>%q\<close>:
  \<^verbatim>\<open>fmt.Sprintf("Tool %q not found. Available tools: %s", ...)\<close>,
  \<^verbatim>\<open>fmt.Sprintf("Error executing tool %s: %v", action.Tool, err)\<close> and
  \<^verbatim>\<open>fmt.Sprintf("Error: %v. Please try again with valid output.", err)\<close>.
\<close>

definition tool_not_found :: "(string \<Rightarrow> string) \<Rightarrow> string \<Rightarrow> string \<Rightarrow> string" where
  "tool_not_found fmtq nm available =
     ''Tool '' @ fmtq nm @ '' not found. Available tools: '' @ available"

definition tool_failed :: "string \<Rightarrow> error \<Rightarrow> string" where
  "tool_failed nm err = ''Error executing tool '' @ nm @ '': '' @ Error err"

definition parsing_failed :: "error \<Rightarrow> string" where
  "parsing_failed err = ''Error: '' @ Error err @ ''. Please try again with valid output.''"

text \<open>
  The two errors of the loop: \<^verbatim>\<open>fmt.Errorf("agent planning error: %w", err)\<close> and
  \<^verbatim>\<open>fmt.Errorf("agent exceeded maximum iterations (%d)", e.maxIterations)\<close>.
\<close>

definition planning_error :: "error \<Rightarrow> error" where
  "planning_error err = WrapError (''agent planning error: '' @ Error err) err"

definition iteration_limit_error :: "int \<Rightarrow> error" where
  "iteration_limit_error n =
     ErrorString (''agent exceeded maximum iterations ('' @ show_int n @ '')'')"

text \<open>
  The calls the executor makes to the planner and to the tools, in order: the planner
  with the step log it is given, a tool with its name and its input.
\<close>

datatype agent_event = PlanCall "AgentStep list" | ToolRun string string

fun is_plan_call :: "agent_event \<Rightarrow> bool" where
  "is_plan_call (PlanCall _) = True"
| "is_plan_call (ToolRun _ _) = False"

text \<open>
  The body of \<^verbatim>\<open>for _, action := range output.Actions\<close>, on the step log, the world and
  the calls made so far.
\<close>

definition exec_action ::
  "(string \<Rightarrow> string) \<Rightarrow> ('v, 's) AgentExecutor \<Rightarrow> ('v, 's) RunnableConfig \<Rightarrow> AgentAction \<Rightarrow>
   AgentStep list \<times> 's \<times> agent_event list \<Rightarrow> AgentStep list \<times> 's \<times> agent_event list"
where
  "exec_action fmtq e cfg action w =
     (case w of (intermediateSteps, s, tr) \<Rightarrow>
        let s1 = notify (Callbacks cfg)
                   (OnAgentAction (Tool action) (ToolInput action) (Log action) (RunID cfg)) s
        in case toolMap e (Tool action) of
             None \<Rightarrow>
               (intermediateSteps @
                  [\<lparr>Action = action,
                    Observation = tool_not_found fmtq (Tool action) (availableToolNames e)\<rparr>],
                s1, tr)
           | Some tool \<Rightarrow>
               let s2 = notify (Callbacks cfg)
                          (OnToolStart (Tool action) (ToolInput action) (RunID cfg)) s1
               in case Run tool (ToolInput action) s2 of
                    (Inl err, s3) \<Rightarrow>
                      (intermediateSteps @
                         [\<lparr>Action = action, Observation = tool_failed (Tool action) err\<rparr>],
                       notify (Callbacks cfg) (OnToolError err (RunID cfg)) s3,
                       tr @ [ToolRun (Tool action) (ToolInput action)])
                  | (Inr observation, s3) \<Rightarrow>
                      (intermediateSteps @ [\<lparr>Action = action, Observation = observation\<rparr>],
                       notify (Callbacks cfg) (OnToolEnd observation (RunID cfg)) s3,
                       tr @ [ToolRun (Tool action) (ToolInput action)]))"

fun exec_actions ::
  "(string \<Rightarrow> string) \<Rightarrow> ('v, 's) AgentExecutor \<Rightarrow> ('v, 's) RunnableConfig \<Rightarrow> AgentAction list \<Rightarrow>
   AgentStep list \<times> 's \<times> agent_event list \<Rightarrow> AgentStep list \<times> 's \<times> agent_event list"
where
  "exec_actions fmtq e cfg [] w = w"
| "exec_actions fmtq e cfg (action # rest) w =
     exec_actions fmtq e cfg rest (exec_action fmtq e cfg action w)"

text \<open>
  The branch \<^verbatim>\<open>if output.Finish != nil\<close>. The result is the map of the finish itself;
  writing \<^verbatim>\<open>"intermediate_steps"\<close> into a nil map panics.
\<close>

definition finish ::
  "('v, 's) AgentExecutor \<Rightarrow> ('v, 's) RunnableConfig \<Rightarrow> 'v AgentFinish \<Rightarrow> AgentStep list \<Rightarrow> 's \<Rightarrow>
   'v gomap outcome \<times> 's"
where
  "finish e cfg fin intermediateSteps s =
     (if returnIntermediateSteps e
      then (case ReturnValues fin of
              None \<Rightarrow> (Panicked ''assignment to entry in nil map'', s)
            | Some m \<Rightarrow>
                (let result = Some (m(''intermediate_steps'' \<mapsto> Steps intermediateSteps))
                 in (Ok result,
                     notify2 (Callbacks cfg) (OnAgentFinish result (FinishLog fin) (RunID cfg))
                       (OnChainEnd result (RunID cfg)) s)))
      else (let result = ReturnValues fin
            in (Ok result,
                notify2 (Callbacks cfg) (OnAgentFinish result (FinishLog fin) (RunID cfg))
                  (OnChainEnd result (RunID cfg)) s)))"

text \<open>
  One pass through the body of \<^verbatim>\<open>for iterations < e.maxIterations\<close>. It either returns
  from \<^verbatim>\<open>Invoke\<close> (\<open>Inl\<close>: the result, the step log, the world, the calls) or goes on to
  \<^verbatim>\<open>iterations++\<close> and the next pass (\<open>Inr\<close>). The context is a function of the world:
  \<^verbatim>\<open>ctx.Err()\<close> when \<^verbatim>\<open>ctx.Done()\<close> is closed.
\<close>

definition agent_iteration ::
  "(string \<Rightarrow> string) \<Rightarrow> ('v, 's) AgentExecutor \<Rightarrow> ('s \<Rightarrow> error option) \<Rightarrow>
   ('v, 's) RunnableConfig \<Rightarrow> 'v gomap \<Rightarrow> AgentStep list \<times> 's \<times> agent_event list \<Rightarrow>
   ('v gomap outcome \<times> AgentStep list \<times> 's \<times> agent_event list) +
   (AgentStep list \<times> 's \<times> agent_event list)"
where
  "agent_iteration fmtq e ctx cfg input w =
     (case w of (intermediateSteps, s, tr) \<Rightarrow>
        case ctx s of
          Some cancelled \<Rightarrow> Inl (Failed cancelled, intermediateSteps, s, tr)
        | None \<Rightarrow>
            (case Plan (agent e) intermediateSteps input s of
               (Inl err, s1) \<Rightarrow>
                 if handleParsingErrors e
                 then Inr (intermediateSteps @
                             [\<lparr>Action = \<lparr>Tool = ''_error'', ToolInput = [], Log = Error err\<rparr>,
                               Observation = parsing_failed err\<rparr>],
                           s1, tr @ [PlanCall intermediateSteps])
                 else Inl (Failed (planning_error err), intermediateSteps,
                           notify (Callbacks cfg) (OnChainError err (RunID cfg)) s1,
                           tr @ [PlanCall intermediateSteps])
             | (Inr None, s1) \<Rightarrow>
                 Inl (Panicked ''nil pointer dereference'', intermediateSteps, s1,
                      tr @ [PlanCall intermediateSteps])
             | (Inr (Some output), s1) \<Rightarrow>
                 (case Finish output of
                    Some fin \<Rightarrow>
                      (case finish e cfg fin intermediateSteps s1 of
                         (res, s2) \<Rightarrow>
                           Inl (res, intermediateSteps, s2, tr @ [PlanCall intermediateSteps]))
                  | None \<Rightarrow>
                      Inr (exec_actions fmtq e cfg (Actions output)
                             (intermediateSteps, s1, tr @ [PlanCall intermediateSteps])))))"

function agent_loop ::
  "(string \<Rightarrow> string) \<Rightarrow> ('v, 's) AgentExecutor \<Rightarrow> ('s \<Rightarrow> error option) \<Rightarrow>
   ('v, 's) RunnableConfig \<Rightarrow> 'v gomap \<Rightarrow> int \<Rightarrow> AgentStep list \<times> 's \<times> agent_event list \<Rightarrow>
   'v gomap outcome \<times> AgentStep list \<times> 's \<times> agent_event list"
where
  "agent_loop fmtq e ctx cfg input iterations w =
     (if iterations < maxIterations e
      then (case agent_iteration fmtq e ctx cfg input w of
              Inl returned \<Rightarrow> returned
            | Inr w' \<Rightarrow> agent_loop fmtq e ctx cfg input (iterations + 1) w')
      else (case w of (intermediateSteps, s, tr) \<Rightarrow>
              (Failed (iteration_limit_error (maxIterations e)), intermediateSteps,
               notify (Callbacks cfg)
                 (OnChainError (iteration_limit_error (maxIterations e)) (RunID cfg)) s,
               tr)))"
  by pat_completeness auto
termination
  by (relation "measure (\<lambda>(fmtq, e, ctx, cfg, input, iterations, w). nat (maxIterations e - iterations))")
    auto

declare agent_loop.simps [simp del]

text \<open>
  \<^verbatim>\<open>AgentExecutor.Invoke\<close>; \<open>cfg\<close> is \<^verbatim>\<open>core.ApplyOptions(opts...)\<close>. Beside the result it
  gives the step log at the return, the world and the calls made.
\<close>

definition AgentExecutor_Invoke ::
  "(string \<Rightarrow> string) \<Rightarrow> ('v, 's) AgentExecutor \<Rightarrow> ('s \<Rightarrow> error option) \<Rightarrow>
   ('v, 's) RunnableConfig \<Rightarrow> 'v gomap \<Rightarrow> 's \<Rightarrow>
   'v gomap outcome \<times> AgentStep list \<times> 's \<times> agent_event list"
where
  "AgentExecutor_Invoke fmtq e ctx cfg input s =
     agent_loop fmtq e ctx cfg input 0
       ([], notify (Callbacks cfg) (OnChainStart input (RunID cfg) (executor_GetName e)) s, [])"

text \<open>
  A planner that never finishes, for an executor and an input: whatever the step log
  and the world, \<^verbatim>\<open>Plan\<close> returns an output whose \<^verbatim>\<open>Finish\<close> is nil, or it returns an
  error while the executor tolerates parsing errors.
\<close>

definition never_finishes :: "('v, 's) AgentExecutor \<Rightarrow> 'v gomap \<Rightarrow> bool" where
  "never_finishes e input =
     (\<forall>intermediateSteps s.
        case fst (Plan (agent e) intermediateSteps input s) of
          Inl err \<Rightarrow> handleParsingErrors e
        | Inr None \<Rightarrow> False
        | Inr (Some output) \<Rightarrow> Finish output = None)"

text \<open>
  Collaborators for the examples. The world is the number of calls of the planner so
  far. The calculator always answers 42, the broken tool always fails.
\<close>

definition calculator :: "nat Tool" where
  "calculator = \<lparr>Name = ''calculator'', Run = (\<lambda>input s. (Inr ''42'', s))\<rparr>"


definition use_tool :: "string \<Rightarrow> AgentAction" where
  "use_tool nm = \<lparr>Tool = nm, ToolInput = ''6*7'', Log = []\<rparr>"

definition looping_planner :: "(string, nat) Agent" where
  "looping_planner =
     \<lparr>Plan = (\<lambda>intermediateSteps input s.
                (Inr (Some \<lparr>Actions = [use_tool ''calculator''], Finish = None\<rparr>), Suc s))\<rparr>"

definition the_answer :: "string AgentFinish" where
  "the_answer =
     \<lparr>ReturnValues = Some [''output'' \<mapsto> Plain ''The answer is 42''], FinishLog = []\<rparr>"


text \<open>A planner that sets both fields of its output.\<close>

definition both_planner :: "(string, nat) Agent" where
  "both_planner =
     \<lparr>Plan = (\<lambda>intermediateSteps input s.
                (Inr (Some \<lparr>Actions = [use_tool ''calculator''], Finish = Some the_answer\<rparr>),
                 Suc s))\<rparr>"

definition no_callbacks :: "(string, nat) RunnableConfig" where
  "no_callbacks = \<lparr>Callbacks = [], RunID = ''run''\<rparr>"

definition never_cancelled :: "nat \<Rightarrow> error option" where
  "never_cancelled s = None"



definition both_executor :: "(string, nat) AgentExecutor" where
  "both_executor = NewAgentExecutor both_planner [calculator] []"


subsection \<open>Properties of Sequence\<close>

lemma run_steps_append:
  "run_steps (pre @ rest) i x (s, tr) =
     (case run_steps pre i x (s, tr) of
        (Ok v, s1, tr1) \<Rightarrow> run_steps rest (i + length pre) v (s1, tr1)
      | (Failed e, w) \<Rightarrow> (Failed e, w)
      | (Panicked m, w) \<Rightarrow> (Panicked m, w))"
proof (induction pre arbitrary: i x s tr)
  case Nil
  show ?case by simp
next
  case (Cons st pre)
  show ?case
  proof (cases "invoke st x s")
    case (Pair r s')
    then show ?thesis
      using Cons.IH [of "Suc i"] by (cases r) (simp_all split: prod.split outcome.split)
  qed
qed

lemma run_steps_Ok_trace:
  "run_steps pre i x (s, tr) = (Ok v, s1, tr1) \<Longrightarrow> tr1 = tr @ [i..<i + length pre]"
proof (induction pre arbitrary: i x s tr)
  case Nil
  then show ?case by simp
next
  case (Cons st pre)
  obtain r s' where inv: "invoke st x s = (r, s')" by (cases "invoke st x s")
  show ?case
  proof (cases r)
    case (Ok y)
    with Cons.prems inv have "run_steps pre (Suc i) y (s', tr @ [i]) = (Ok v, s1, tr1)"
      by simp
    from Cons.IH [OF this] show ?thesis by (simp add: upt_rec)
  next
    case (Failed e)
    with Cons.prems inv show ?thesis by simp
  next
    case (Panicked m)
    with Cons.prems inv show ?thesis by simp
  qed
qed

text \<open>
  C7. When the steps before index \<open>k\<close> succeed and step \<open>k\<close> returns an error,
  \<^verbatim>\<open>Sequence.Invoke\<close> has invoked exactly the steps \<open>0, ..., k\<close> (none after \<open>k\<close>), the
  world is as step \<open>k\<close> left it, and the result is no output but the error of step \<open>k\<close>
  wrapped with the index \<open>k\<close> and the name of that step.
\<close>

theorem Sequence_Invoke_first_failure:
  assumes "steps sq = pre @ st # post"
    and "run_steps pre 0 x (s, []) = (Ok v, s1, tr1)"
    and "invoke st v s1 = (Failed e, s2)"
  shows "Sequence_Invoke fmtT sq x s =
           (Failed (step_error (length pre) (name st) e), s2, [0..<Suc (length pre)])
         \<and> Unwrap (step_error (length pre) (name st) e) = Some e
         \<and> Error (step_error (length pre) (name st) e) =
             ''step '' @ show_nat (length pre) @ '' ('' @ name st @ ''): '' @ Error e"
proof -
  from run_steps_Ok_trace [OF assms(2)] have tr1: "tr1 = [0..<length pre]" by simp
  have "run_steps (steps sq) 0 x (s, []) =
          (Failed (step_error (length pre) (name st) e), s2, tr1 @ [length pre])"
    using assms by (simp add: run_steps_append)
  then show ?thesis by (simp add: Sequence_Invoke_def tr1 step_error_def)
qed


theorem Sequence_Invoke_first_failure_witness:
  "Sequence_Invoke dyn_fmtT
     (Pipe [add_one_unit, failing_unit ''boom'' (ErrorString ''bad''), add_one_unit])
     (AnyVal (DInt 1)) () =
     (Failed (WrapError ''step 1 (boom): bad'' (ErrorString ''bad'')), (), [0, 1])"
proof -
  let ?sq = "Pipe [add_one_unit, failing_unit ''boom'' (ErrorString ''bad''), add_one_unit]
               :: (dyn, unit) Sequence"
  let ?st = "\<lparr>name = ''boom'', invoke = Invoke (failing_unit ''boom'' (ErrorString ''bad''))\<rparr>
               :: (dyn, unit) step"
  let ?a = "\<lparr>name = ''addOne'', invoke = Invoke (add_one_unit :: (dyn, unit) Runnable)\<rparr>"
  have a: "steps ?sq = [?a] @ ?st # [?a]"
    by (simp add: Pipe_def failing_unit_def add_one_unit_def pure_unit_def)
  have b: "run_steps [?a] 0 (AnyVal (DInt 1)) ((), []) = (Ok (AnyVal (DInt 2)), (), [0])"
    by (simp add: add_one_unit_def pure_unit_def)
  have c: "invoke ?st (AnyVal (DInt 2)) () = (Failed (ErrorString ''bad''), ())"
    by (simp add: failing_unit_def)
  have d: "show_nat (Suc 0) = ''1''"
    by (simp add: show_nat.simps digit_char_def)
  from Sequence_Invoke_first_failure [OF a b c, of dyn_fmtT] d
  show ?thesis by (simp add: step_error_def)
qed

text \<open>
  The fixed-arity builder on pure units: when the input and the value after every stage
  pass the type assertion of the next boundary, the result is \<open>h (g (f x))\<close>, no error,
  the world unchanged.
\<close>

lemma Pipe3_pure_units:
  assumes "type_assert A x" and "type_assert B (f x)" and "type_assert C (g (f x))"
    and "type_assert D (h (g (f x)))"
  shows "Sequence_Invoke fmtT (Pipe3 A B C D (pure_unit nf f) (pure_unit ng g) (pure_unit nh h)) x s =
           (Ok (h (g (f x))), s, [0, 1, 2])"
  using assms by (simp add: Sequence_Invoke_def Pipe3_def typed_step_def pure_unit_def)

text \<open>
  C1. The claim fails on nil interface values. A pipeline of three \<^verbatim>\<open>Passthrough[any]\<close>
  units invoked on the nil interface panics in the type assertion of its first step
  instead of returning nil; and a pipeline over \<^verbatim>\<open>int\<close> whose last unit has the output
  type \<^verbatim>\<open>any\<close> and returns nil runs its three steps and then returns the error
  "final step output type mismatch" instead of the value \<open>h (g (f x))\<close>.
\<close>

theorem Pipe3_nil_interface_value:
  "Sequence_Invoke fmtT (Pipe3 any_type any_type any_type any_type Passthrough Passthrough Passthrough)
     AnyNil s = (Panicked ''interface conversion'', s, [0])
   \<and> Sequence_Invoke dyn_fmtT
       (Pipe3 int_type int_type int_type any_type
          (pure_unit ''f'' id) (pure_unit ''g'' id) (pure_unit ''h'' (\<lambda>_. AnyNil)))
       (AnyVal (DInt 1)) s =
       (Failed (ErrorString ''final step output type mismatch: got <nil>, want <nil>''), s, [0, 1, 2])"
  by (simp add: Sequence_Invoke_def Pipe3_def typed_step_def Passthrough_def pure_unit_def
      type_assert_def any_type_def int_type_def final_mismatch_def)


lemma upt_Suc_shift: "[i..<Suc (i + n)] = i # [Suc i..<Suc (i + n)]"
  by (simp add: upt_conv_Cons del: upt_Suc)

lemma run_steps_Pipe:
  "case compose_units rs x s of
     (Ok v, s') \<Rightarrow>
        run_steps (map (\<lambda>r. \<lparr>name = GetName r, invoke = Invoke r\<rparr>) rs) i x (s, tr) =
          (Ok v, s', tr @ [i..<i + length rs])
   | (Failed e, s') \<Rightarrow>
        (\<exists>k<length rs. \<exists>y s0. compose_units (take k rs) x s = (Ok y, s0) \<and>
           Invoke (rs ! k) y s0 = (Failed e, s') \<and>
           run_steps (map (\<lambda>r. \<lparr>name = GetName r, invoke = Invoke r\<rparr>) rs) i x (s, tr) =
             (Failed (step_error (i + k) (GetName (rs ! k)) e), s', tr @ [i..<Suc (i + k)]))
   | (Panicked m, s') \<Rightarrow>
        (\<exists>k<length rs. \<exists>y s0. compose_units (take k rs) x s = (Ok y, s0) \<and>
           Invoke (rs ! k) y s0 = (Panicked m, s') \<and>
           run_steps (map (\<lambda>r. \<lparr>name = GetName r, invoke = Invoke r\<rparr>) rs) i x (s, tr) =
             (Panicked m, s', tr @ [i..<Suc (i + k)]))"
proof (induction rs arbitrary: i x s tr)
  case Nil
  show ?case by simp
next
  case (Cons r rs)
  obtain o1 s1 where inv: "Invoke r x s = (o1, s1)" by (cases "Invoke r x s")
  show ?case
  proof (cases o1)
    case (Ok y)
    obtain o2 s2 where cu: "compose_units rs y s1 = (o2, s2)" by (cases "compose_units rs y s1")
    show ?thesis
    proof (cases o2)
      case (Ok v)
      with Cons.IH [of "Suc i" y s1 "tr @ [i]"] cu inv \<open>o1 = Ok y\<close>
      show ?thesis by (simp add: upt_Suc_shift del: upt_Suc)
    next
      case (Failed e)
      with Cons.IH [of "Suc i" y s1 "tr @ [i]"] cu
      obtain k y' s0 where k: "k < length rs" "compose_units (take k rs) y s1 = (Ok y', s0)"
        "Invoke (rs ! k) y' s0 = (Failed e, s2)"
        "run_steps (map (\<lambda>r. \<lparr>name = GetName r, invoke = Invoke r\<rparr>) rs) (Suc i) y (s1, tr @ [i]) =
             (Failed (step_error (Suc i + k) (GetName (rs ! k)) e), s2, (tr @ [i]) @ [Suc i..<Suc (Suc i + k)])"
        by auto
      have "[i..<Suc (i + Suc k)] = i # [Suc i..<Suc (Suc i + k)]"
        by (simp add: upt_conv_Cons del: upt_Suc)
      with k inv cu Failed \<open>o1 = Ok y\<close> show ?thesis
        by (auto simp del: upt_Suc intro!: exI [of _ "Suc k"])
    next
      case (Panicked m)
      with Cons.IH [of "Suc i" y s1 "tr @ [i]"] cu
      obtain k y' s0 where k: "k < length rs" "compose_units (take k rs) y s1 = (Ok y', s0)"
        "Invoke (rs ! k) y' s0 = (Panicked m, s2)"
        "run_steps (map (\<lambda>r. \<lparr>name = GetName r, invoke = Invoke r\<rparr>) rs) (Suc i) y (s1, tr @ [i]) =
             (Panicked m, s2, (tr @ [i]) @ [Suc i..<Suc (Suc i + k)])"
        by auto
      have "[i..<Suc (i + Suc k)] = i # [Suc i..<Suc (Suc i + k)]"
        by (simp add: upt_conv_Cons del: upt_Suc)
      with k inv cu Panicked \<open>o1 = Ok y\<close> show ?thesis
        by (auto simp del: upt_Suc intro!: exI [of _ "Suc k"])
    qed
  next
    case (Failed e)
    with inv show ?thesis by (auto intro!: exI [of _ 0])
  next
    case (Panicked m)
    with inv show ?thesis by (auto intro!: exI [of _ 0])
  qed
qed


text \<open>
  C4 (as amended). A pipeline built by \<^verbatim>\<open>Pipe\<close> makes no type check between its steps:
  \<^verbatim>\<open>Sequence.Invoke\<close> hands every unit the output of the unit before it, whatever its
  dynamic type, exactly as the unchecked composition \<open>compose_units\<close> does. When every
  unit returns a value and the last value is not the nil interface, that value is the
  result and all steps have run. The invocation fails at a step only when the unit of
  that step itself returns an error on the value it was given; the error is then the
  unit's error wrapped with the index and the name of the step, and no later step runs.
\<close>

theorem Pipe_no_boundary_check:
  "case compose_units rs x s of
     (Ok v, s') \<Rightarrow>
        v \<noteq> AnyNil \<longrightarrow> Sequence_Invoke fmtT (Pipe rs) x s = (Ok v, s', [0..<length rs])
   | (Failed e, s') \<Rightarrow>
        (\<exists>k<length rs. \<exists>y s0. compose_units (take k rs) x s = (Ok y, s0) \<and>
           Invoke (rs ! k) y s0 = (Failed e, s') \<and>
           Sequence_Invoke fmtT (Pipe rs) x s =
             (Failed (step_error k (GetName (rs ! k)) e), s', [0..<Suc k]))
   | (Panicked m, s') \<Rightarrow>
        (\<exists>k<length rs. Sequence_Invoke fmtT (Pipe rs) x s = (Panicked m, s', [0..<Suc k]))"
proof -
  obtain r s' where cu: "compose_units rs x s = (r, s')" by (cases "compose_units rs x s")
  show ?thesis
  proof (cases r)
    case (Ok v)
    with run_steps_Pipe [where rs = rs and x = x and s = s and i = 0 and tr = "[]"] cu show ?thesis
      by (cases v) (simp_all add: Sequence_Invoke_def Pipe_def type_assert_def any_type_def)
  next
    case (Failed e)
    with run_steps_Pipe [where rs = rs and x = x and s = s and i = 0 and tr = "[]"] cu show ?thesis
      by (auto simp add: Sequence_Invoke_def Pipe_def simp del: upt_Suc)
  next
    case (Panicked m)
    with run_steps_Pipe [where rs = rs and x = x and s = s and i = 0 and tr = "[]"] cu show ?thesis
      by (auto simp add: Sequence_Invoke_def Pipe_def simp del: upt_Suc)
  qed
qed

theorem Pipe_no_boundary_check_witness:
  "Sequence_Invoke dyn_fmtT (Pipe [to_string_unit, to_string_unit]) (AnyVal (DInt 7)) () =
     (Ok (AnyVal (DStr ''x'')), (), [0, 1])
   \<and> Sequence_Invoke dyn_fmtT (Pipe [to_string_unit, failing_unit ''parse'' (ErrorString ''not a number'')])
       (AnyVal (DInt 7)) () =
     (Failed (WrapError ''step 1 (parse): not a number'' (ErrorString ''not a number'')), (), [0, 1])"
proof -
  have d: "show_nat (Suc 0) = ''1''"
    by (simp add: show_nat.simps digit_char_def)
  have a: "Sequence_Invoke dyn_fmtT (Pipe [to_string_unit, to_string_unit]) (AnyVal (DInt 7)) () =
     (Ok (AnyVal (DStr ''x'')), (), [0, 1])"
    using Pipe_no_boundary_check [where rs = "[to_string_unit, to_string_unit]" and x = "AnyVal (DInt 7)"
        and s = "()" and fmtT = dyn_fmtT]
    by (simp add: to_string_unit_def pure_unit_def)
  have b: "Sequence_Invoke dyn_fmtT (Pipe [to_string_unit, failing_unit ''parse'' (ErrorString ''not a number'')])
       (AnyVal (DInt 7)) () =
     (Failed (WrapError ''step 1 (parse): not a number'' (ErrorString ''not a number'')), (), [0, 1])"
    using Pipe_no_boundary_check [where rs = "[to_string_unit, failing_unit ''parse'' (ErrorString ''not a number'')]"
        and x = "AnyVal (DInt 7)" and s = "()" and fmtT = dyn_fmtT] d
    by (auto simp add: to_string_unit_def pure_unit_def failing_unit_def step_error_def less_Suc_eq)
  from a b show ?thesis by simp
qed

text \<open>
  The claim C4 as stated fails: the first unit gives a \<^verbatim>\<open>string\<close>, the second unit is
  written for \<^verbatim>\<open>int\<close>, and the invocation returns a value, with no error at the boundary.
\<close>

theorem Pipe_type_mismatch_counterexample:
  "Invoke to_string_unit (AnyVal (DInt 5)) () = (Ok (AnyVal (DStr ''x'')), ())
   \<and> \<not> type_assert int_type (AnyVal (DStr ''x''))
   \<and> Sequence_Invoke dyn_fmtT (Pipe [to_string_unit, add_one_unit]) (AnyVal (DInt 5)) () =
       (Ok (AnyVal (DInt 1)), (), [0, 1])"
  by (simp add: Sequence_Invoke_def Pipe_def to_string_unit_def add_one_unit_def pure_unit_def
      type_assert_def any_type_def int_type_def)

subsection \<open>Properties of Branch\<close>

lemma branch_loop_skip:
  "conds_false pre input s = Some s1 \<Longrightarrow>
   branch_loop (pre @ rest) i dflt input (s, tr) =
     branch_loop rest (i + length pre) dflt input (s1, tr @ map CondEval [i..<i + length pre])"
proof (induction pre arbitrary: i s tr)
  case Nil
  then show ?case by simp
next
  case (Cons c pre)
  obtain m s' where c: "Condition c input s = (m, s')" by (cases "Condition c input s")
  with Cons.prems have m: "\<not> m" and rest: "conds_false pre input s' = Some s1"
    by (auto split: if_splits)
  from Cons.IH [OF rest, of "Suc i" "tr @ [CondEval i]"] c m
  show ?case by (simp add: upt_Suc_shift del: upt_Suc)
qed

text \<open>
  C8. \<^verbatim>\<open>Branch.Invoke\<close> evaluates the conditions in list order. When the conditions
  before an index all return false and the condition at that index returns true, the
  result is the result of the unit paired with it, run in the world as that condition
  left it; the calls made are the conditions up to that index and that unit, so no
  condition after the first true one is evaluated and no later pair is dispatched to.
  When every condition returns false and there is no default unit, the result is the
  error "no branch condition matched and no default branch provided" and only the
  conditions have been called; with a default unit, the default unit runs.
\<close>

theorem Branch_Invoke_first_match:
  "(conditions b = pre @ c # post \<and> conds_false pre input s = Some s1 \<and>
      Condition c input s1 = (True, s2) \<longrightarrow>
      Branch_Invoke b input s =
        (fst (Invoke (Runnable c) input s2), snd (Invoke (Runnable c) input s2),
         map CondEval [0..<Suc (length pre)] @ [RunBranch (length pre)]))
   \<and> (conds_false (conditions b) input s = Some s1 \<and> defaultBranch b = None \<longrightarrow>
      Branch_Invoke b input s =
        (Failed (ErrorString ''no branch condition matched and no default branch provided''),
         s1, map CondEval [0..<length (conditions b)]))
   \<and> (conds_false (conditions b) input s = Some s1 \<and> defaultBranch b = Some d \<longrightarrow>
      Branch_Invoke b input s =
        (fst (Invoke d input s1), snd (Invoke d input s1),
         map CondEval [0..<length (conditions b)] @ [RunDefault]))"
proof (intro conjI impI)
  assume a: "conditions b = pre @ c # post \<and> conds_false pre input s = Some s1 \<and>
      Condition c input s1 = (True, s2)"
  then have "branch_loop (pre @ c # post) 0 (defaultBranch b) input (s, []) =
      branch_loop (c # post) (length pre) (defaultBranch b) input (s1, map CondEval [0..<length pre])"
    using branch_loop_skip [of pre input s s1 "c # post" 0 "defaultBranch b" "[]"] by simp
  with a show "Branch_Invoke b input s =
        (fst (Invoke (Runnable c) input s2), snd (Invoke (Runnable c) input s2),
         map CondEval [0..<Suc (length pre)] @ [RunBranch (length pre)])"
    by (simp add: Branch_Invoke_def split: prod.split)
next
  assume a: "conds_false (conditions b) input s = Some s1 \<and> defaultBranch b = None"
  then show "Branch_Invoke b input s =
        (Failed (ErrorString ''no branch condition matched and no default branch provided''),
         s1, map CondEval [0..<length (conditions b)])"
    using branch_loop_skip [of "conditions b" input s s1 "[]" 0 "defaultBranch b" "[]"]
    by (simp add: Branch_Invoke_def no_branch_matched_def)
next
  assume a: "conds_false (conditions b) input s = Some s1 \<and> defaultBranch b = Some d"
  then show "Branch_Invoke b input s =
        (fst (Invoke d input s1), snd (Invoke d input s1),
         map CondEval [0..<length (conditions b)] @ [RunDefault])"
    using branch_loop_skip [of "conditions b" input s s1 "[]" 0 "defaultBranch b" "[]"]
    by (simp add: Branch_Invoke_def split: prod.split)
qed

theorem Branch_Invoke_first_match_witness:
  "Branch_Invoke
     (NewBranch
        [\<lparr>Condition = is_negative, Runnable = label_unit ''negative''\<rparr>,
         \<lparr>Condition = is_positive, Runnable = label_unit ''positive''\<rparr>,
         \<lparr>Condition = is_big, Runnable = label_unit ''big''\<rparr>] None)
     (AnyVal (DInt 500)) () =
     (Ok (AnyVal (DStr ''positive'')), (), [CondEval 0, CondEval 1, RunBranch 1])
   \<and> Branch_Invoke (NewBranch [\<lparr>Condition = is_big, Runnable = label_unit ''big''\<rparr>] None)
       (AnyVal (DInt 5)) () =
     (Failed (ErrorString ''no branch condition matched and no default branch provided''),
      (), [CondEval 0])"
proof -
  let ?neg = "\<lparr>Condition = is_negative, Runnable = label_unit ''negative''\<rparr>
                :: (dyn, unit) BranchCondition"
  let ?pos = "\<lparr>Condition = is_positive, Runnable = label_unit ''positive''\<rparr>
                :: (dyn, unit) BranchCondition"
  let ?big = "\<lparr>Condition = is_big, Runnable = label_unit ''big''\<rparr>
                :: (dyn, unit) BranchCondition"
  have a: "Branch_Invoke (NewBranch [?neg, ?pos, ?big] None) (AnyVal (DInt 500)) () =
     (Ok (AnyVal (DStr ''positive'')), (), [CondEval 0, CondEval 1, RunBranch 1])"
    using Branch_Invoke_first_match [where b = "NewBranch [?neg, ?pos, ?big] None"
        and pre = "[?neg]" and c = ?pos and post = "[?big]" and input = "AnyVal (DInt 500)"
        and s = "()" and ?s1.0 = "()" and ?s2.0 = "()", THEN conjunct1]
    by (simp add: NewBranch_def is_negative_def is_positive_def label_unit_def pure_unit_def)
  have b: "Branch_Invoke (NewBranch [?big] None) (AnyVal (DInt 5)) () =
     (Failed (ErrorString ''no branch condition matched and no default branch provided''),
      (), [CondEval 0])"
    using Branch_Invoke_first_match [where b = "NewBranch [?big] None"
        and input = "AnyVal (DInt 5)" and s = "()" and ?s1.0 = "()",
        THEN conjunct2, THEN conjunct1]
    by (simp add: NewBranch_def is_big_def)
  from a b show ?thesis by simp
qed

subsection \<open>Properties of StreamIterator\<close>

lemma Nexts_exhausted:
  "sends (ch it) = [] \<Longrightarrow> closes (ch it) \<Longrightarrow>
   Nexts n z it = replicate n (Some (z, False, None))"
proof (induction n arbitrary: it)
  case 0
  show ?case by simp
next
  case (Suc n)
  have "Next z it = (Some (z, False, None), it)"
    using Suc.prems by (simp add: Next_def receive_def)
  with Suc.IH [OF Suc.prems] show ?case by simp
qed

text \<open>
  C5. On an iterator whose producer sends the values \<open>a\<close>, \<open>b\<close>, \<open>c\<close> and closes the
  channel, the calls of \<^verbatim>\<open>Next\<close> return \<open>(a, true, nil)\<close>, \<open>(b, true, nil)\<close>,
  \<open>(c, true, nil)\<close> and then \<open>(zero, false, nil)\<close> at every later call, however many.
  When the producer sends the value \<open>a\<close>, then an error chunk \<open>e\<close>, and closes, the
  calls return \<open>(a, true, nil)\<close>, then \<open>(zero, false, e)\<close> once, and
  \<open>(zero, false, nil)\<close> at every later call.
\<close>

theorem StreamIterator_Next_sequence:
  "Nexts (3 + n) z
     (NewStreamIterator
        \<lparr>sends = [\<lparr>Value = a, Err = None\<rparr>, \<lparr>Value = b, Err = None\<rparr>, \<lparr>Value = c, Err = None\<rparr>],
         closes = True\<rparr>) =
     [Some (a, True, None), Some (b, True, None), Some (c, True, None)] @
     replicate n (Some (z, False, None))
   \<and> Nexts (2 + n) z
       (NewStreamIterator
          \<lparr>sends = [\<lparr>Value = a, Err = None\<rparr>, \<lparr>Value = v, Err = Some e\<rparr>], closes = True\<rparr>) =
     [Some (a, True, None), Some (z, False, Some e)] @ replicate n (Some (z, False, None))"
proof -
  have three: "3 + n = Suc (Suc (Suc n))" and two: "2 + n = Suc (Suc n)"
    by simp_all
  show ?thesis
    unfolding three two
    by (simp add: Next_def receive_def Nexts_exhausted NewStreamIterator_def)
qed

subsection \<open>Properties of Parallel\<close>

lemma collect_distinct:
  "distinct (map fst outs) \<Longrightarrow>
   collect outs (R0, E0) =
     ((\<lambda>k. case map_of outs k of Some (Ok v) \<Rightarrow> Some v | _ \<Rightarrow> R0 k),
      (\<lambda>k. case map_of outs k of Some (Failed e) \<Rightarrow> Some e | _ \<Rightarrow> E0 k))"
proof (induction outs arbitrary: R0 E0)
  case Nil
  show ?case by simp
next
  case (Cons a outs)
  obtain key r where a: "a = (key, r)" by (cases a)
  from Cons.prems a have d: "distinct (map fst outs)" and nk: "map_of outs key = None"
    by (auto simp add: map_of_eq_None_iff)
  show ?case
    using Cons.IH [OF d] nk a
    by (cases r) (auto simp add: fun_eq_iff split: option.splits outcome.splits)
qed


lemma map_of_tabulate:
  "map_of (map (\<lambda>k. (k, f k)) ks) k = (if k \<in> set ks then Some (f k) else None)"
  by (induction ks) auto

lemma Parallel_after_join:
  assumes "range_order m order"
  shows "collect (map (\<lambda>key. (key, goroutine (NewParallelAny m order) input key)) order)
           (Map.empty, Map.empty) =
         ((\<lambda>k. case m k of None \<Rightarrow> None
                | Some fn \<Rightarrow> (case fn input of Inl e \<Rightarrow> None | Inr v \<Rightarrow> Some v)),
          (\<lambda>k. case m k of None \<Rightarrow> None
                | Some fn \<Rightarrow> (case fn input of Inl e \<Rightarrow> Some e | Inr v \<Rightarrow> None)))"
proof -
  let ?outs = "map (\<lambda>key. (key, goroutine (NewParallelAny m order) input key)) order"
  from assms have d: "distinct (map fst ?outs)" and dom: "set order = dom m"
    by (simp_all add: range_order_def comp_def)
  have dom_iff: "\<And>k. k \<in> set order \<longleftrightarrow> m k \<noteq> None"
    using dom by auto
  show ?thesis
    unfolding collect_distinct [OF d]
    by (auto simp add: fun_eq_iff map_of_tabulate dom_iff goroutine_def NewParallelAny_def
        split: option.splits sum.splits)
qed

lemma Parallel_no_panic:
  assumes "range_order m order"
  shows "\<not> list_ex (\<lambda>(key, r). is_panic r)
           (map (\<lambda>key. (key, goroutine (NewParallelAny m order) input key)) order)"
proof -
  have "\<not> is_panic (goroutine (NewParallelAny m order) input k)" if "k \<in> set order" for k
  proof -
    from that assms obtain fn where "m k = Some fn"
      by (auto simp add: range_order_def)
    then show ?thesis
      by (cases "fn input") (simp_all add: goroutine_def NewParallelAny_def)
  qed
  then show ?thesis by (simp add: list_ex_iff)
qed

lemma branch_failure_Some:
  "branch_failure m input k = Some e \<longleftrightarrow> (\<exists>fn. m k = Some fn \<and> fn input = Inl e)"
  by (cases "m k"; cases "the (m k) input") (simp_all add: branch_failure_def)

lemma branch_value_Some:
  "branch_value m input k = Some v \<longleftrightarrow> (\<exists>fn. m k = Some fn \<and> fn input = Inr v)"
  by (cases "m k"; cases "the (m k) input") (simp_all add: branch_value_def)

lemma Parallel_Invoke_eq:
  assumes "range_order m order"
  shows "Parallel_Invoke fmtq (NewParallelAny m order) input =
      (if list_ex (\<lambda>key. branch_failure m input key \<noteq> None) order
       then set (concat (map (\<lambda>key. case branch_failure m input key of None \<Rightarrow> []
                                    | Some err \<Rightarrow> [Failed (branch_error fmtq key err)]) order))
       else {Ok (branch_value m input)})"
proof -
  have keys: "keys (NewParallelAny m order) = order" by (simp add: NewParallelAny_def)
  have bv: "branch_value m input = (\<lambda>k. case m k of None \<Rightarrow> None
                | Some fn \<Rightarrow> (case fn input of Inl e \<Rightarrow> None | Inr v \<Rightarrow> Some v))"
    and bf: "branch_failure m input = (\<lambda>k. case m k of None \<Rightarrow> None
                | Some fn \<Rightarrow> (case fn input of Inl e \<Rightarrow> Some e | Inr v \<Rightarrow> None))"
    by (simp_all add: fun_eq_iff branch_value_def branch_failure_def)
  show ?thesis
    unfolding Parallel_Invoke_def keys Let_def bv bf
    using Parallel_no_panic [OF assms, of input] Parallel_after_join [OF assms, of input]
    by simp
qed

text \<open>
  C2. For a Parallel built by \<^verbatim>\<open>NewParallelAny\<close> from a map of named branches: when
  every branch succeeds on the input, \<^verbatim>\<open>Parallel.Invoke\<close> returns one mapping, whose
  keys are exactly the registered names and whose value at a name is the result of that
  name's branch. When at least one branch fails, the call returns an error and no
  mapping; whichever error the range over \<^verbatim>\<open>errs\<close> yields, it wraps the error of a
  branch that failed, and its message is "parallel branch <name>: <error>" with the name
  of that branch as the verb \<^verbatim>\<open>%q\<close> prints it.
\<close>

theorem Parallel_Invoke_all_or_nothing:
  assumes "range_order m order"
  shows "((\<forall>k fn. m k = Some fn \<longrightarrow> (\<exists>v. fn input = Inr v)) \<longrightarrow>
            (\<exists>results. Parallel_Invoke fmtq (NewParallelAny m order) input = {Ok results} \<and>
               dom results = dom m \<and>
               (\<forall>k fn. m k = Some fn \<longrightarrow> (\<exists>v. fn input = Inr v \<and> results k = Some v))))
       \<and> ((\<exists>k fn e. m k = Some fn \<and> fn input = Inl e) \<longrightarrow>
            Parallel_Invoke fmtq (NewParallelAny m order) input \<noteq> {} \<and>
            (\<forall>out \<in> Parallel_Invoke fmtq (NewParallelAny m order) input.
               \<exists>k fn e. m k = Some fn \<and> fn input = Inl e \<and>
                 out = Failed (branch_error fmtq k e) \<and> Unwrap (branch_error fmtq k e) = Some e \<and>
                 Error (branch_error fmtq k e) =
                   ''parallel branch '' @ fmtq k @ '': '' @ Error e \<and>
                 sublist (fmtq k) (Error (branch_error fmtq k e))))"
proof (intro conjI impI)
  let ?p = "NewParallelAny m order"
  from assms have dom: "set order = dom m" by (simp add: range_order_def)
  note inv = Parallel_Invoke_eq [OF assms, of fmtq input]
  {
    assume ok: "\<forall>k fn. m k = Some fn \<longrightarrow> (\<exists>v. fn input = Inr v)"
    have noerr: "branch_failure m input k = None" for k
    proof (cases "branch_failure m input k")
      case None
      then show ?thesis .
    next
      case (Some e)
      then obtain fn where "m k = Some fn" "fn input = Inl e"
        unfolding branch_failure_Some by blast
      with ok show ?thesis by fastforce
    qed
    have val: "\<exists>v. fn input = Inr v \<and> branch_value m input k = Some v" if "m k = Some fn" for k fn
    proof -
      from ok that obtain v where "fn input = Inr v" by blast
      with that show ?thesis by (simp add: branch_value_def)
    qed
    have "Parallel_Invoke fmtq ?p input = {Ok (branch_value m input)}"
      unfolding inv by (simp add: noerr list_ex_iff)
    moreover have "dom (branch_value m input) = dom m"
    proof
      show "dom (branch_value m input) \<subseteq> dom m"
        by (auto simp add: branch_value_Some)
      show "dom m \<subseteq> dom (branch_value m input)"
        using val by (auto simp add: dom_def)
    qed
    moreover have "\<forall>k fn. m k = Some fn \<longrightarrow>
        (\<exists>v. fn input = Inr v \<and> branch_value m input k = Some v)"
      using val by blast
    ultimately show "\<exists>results. Parallel_Invoke fmtq ?p input = {Ok results} \<and>
               dom results = dom m \<and>
               (\<forall>k fn. m k = Some fn \<longrightarrow> (\<exists>v. fn input = Inr v \<and> results k = Some v))"
      by blast
  }
  {
    assume "\<exists>k fn e. m k = Some fn \<and> fn input = Inl e"
    then obtain k fn e where k: "m k = Some fn" "fn input = Inl e" by blast
    then have kin: "k \<in> set order" and Ek: "branch_failure m input k = Some e"
      using dom by (auto simp add: branch_failure_Some)
    then have ex: "list_ex (\<lambda>key. branch_failure m input key \<noteq> None) order"
      by (auto simp add: list_ex_iff)
    have eq: "Parallel_Invoke fmtq ?p input =
        set (concat (map (\<lambda>key. case branch_failure m input key of None \<Rightarrow> []
                                    | Some err \<Rightarrow> [Failed (branch_error fmtq key err)]) order))"
      unfolding inv using ex by simp
    have "Failed (branch_error fmtq k e) \<in> Parallel_Invoke fmtq ?p input"
      unfolding eq using kin Ek by (auto intro!: bexI [of _ k])
    then show "Parallel_Invoke fmtq ?p input \<noteq> {}" by blast
    show "\<forall>out \<in> Parallel_Invoke fmtq ?p input.
               \<exists>k fn e. m k = Some fn \<and> fn input = Inl e \<and>
                 out = Failed (branch_error fmtq k e) \<and> Unwrap (branch_error fmtq k e) = Some e \<and>
                 Error (branch_error fmtq k e) =
                   ''parallel branch '' @ fmtq k @ '': '' @ Error e \<and>
                 sublist (fmtq k) (Error (branch_error fmtq k e))"
    proof
      fix out
      assume "out \<in> Parallel_Invoke fmtq ?p input"
      then obtain key where "key \<in> set order"
        and out: "out \<in> set (case branch_failure m input key of None \<Rightarrow> []
                         | Some err \<Rightarrow> [Failed (branch_error fmtq key err)])"
        unfolding eq by auto
      then obtain err where e: "branch_failure m input key = Some err"
        and o: "out = Failed (branch_error fmtq key err)"
        by (cases "branch_failure m input key") simp_all
      from e obtain fn where "m key = Some fn" "fn input = Inl err"
        unfolding branch_failure_Some by blast
      then show "\<exists>k fn e. m k = Some fn \<and> fn input = Inl e \<and>
                 out = Failed (branch_error fmtq k e) \<and> Unwrap (branch_error fmtq k e) = Some e \<and>
                 Error (branch_error fmtq k e) =
                   ''parallel branch '' @ fmtq k @ '': '' @ Error e \<and>
                 sublist (fmtq k) (Error (branch_error fmtq k e))"
      proof (intro exI conjI)
        show "m key = Some fn" "fn input = Inl err" by fact+
        show "out = Failed (branch_error fmtq key err)" by (rule o)
        show "Unwrap (branch_error fmtq key err) = Some err"
          by (simp add: branch_error_def)
        show msg: "Error (branch_error fmtq key err) =
            ''parallel branch '' @ fmtq key @ '': '' @ Error err"
          by (simp add: branch_error_def)
        have "Error (branch_error fmtq key err) =
            ''parallel branch '' @ fmtq key @ ('': '' @ Error err)"
          by (simp add: branch_error_def)
        then show "sublist (fmtq key) (Error (branch_error fmtq key err))"
          by (simp only: sublist_appendI)
      qed
    qed
  }
qed

lemma error_from_parts: "Unwrap x = Some e \<Longrightarrow> x = WrapError (Error x) e"
  by (cases x) simp_all

theorem Parallel_Invoke_all_or_nothing_witness:
  "range_order both_succeed [''b'', ''a''] \<and> range_order one_fails [''a'', ''b'']
   \<and> (\<exists>results. Parallel_Invoke go_quote (NewParallelAny both_succeed [''b'', ''a'']) 3 =
          {Ok results} \<and> dom results = {''a'', ''b''} \<and>
          results ''a'' = Some 4 \<and> results ''b'' = Some 6)
   \<and> Parallel_Invoke go_quote (NewParallelAny one_fails [''a'', ''b'']) 3 =
       {Failed (WrapError (''parallel branch '' @ [CHR 0x22] @ ''b'' @ [CHR 0x22] @ '': boom'')
                  (ErrorString ''boom''))}"
proof -
  let ?lit = "WrapError (''parallel branch '' @ [CHR 0x22] @ ''b'' @ [CHR 0x22] @ '': boom'')
                (ErrorString ''boom'')"
  have r1: "range_order both_succeed [''b'', ''a'']"
    by (auto simp add: range_order_def both_succeed_def)
  have r2: "range_order one_fails [''a'', ''b'']"
    by (auto simp add: range_order_def one_fails_def)
  have ok: "\<forall>k fn. both_succeed k = Some fn \<longrightarrow> (\<exists>v. fn 3 = Inr v)"
    by (auto simp add: both_succeed_def split: if_splits)
  from Parallel_Invoke_all_or_nothing [OF r1, of 3 go_quote, THEN conjunct1, THEN mp, OF ok]
  obtain results where res:
    "Parallel_Invoke go_quote (NewParallelAny both_succeed [''b'', ''a'']) 3 = {Ok results}"
    "dom results = dom both_succeed"
    "\<forall>k fn. both_succeed k = Some fn \<longrightarrow> (\<exists>v. fn 3 = Inr v \<and> results k = Some v)"
    by blast
  have a: "results ''a'' = Some 4"
    using res(3) [rule_format, of "''a''" "\<lambda>x. Inr (x + 1)"] by (simp add: both_succeed_def)
  have b: "results ''b'' = Some 6"
    using res(3) [rule_format, of "''b''" "\<lambda>x. Inr (2 * x)"] by (simp add: both_succeed_def)
  have d: "dom both_succeed = {''a'', ''b''}"
    by (auto simp add: both_succeed_def)
  have bad: "\<exists>k fn e. one_fails k = Some fn \<and> fn (3::int) = Inl e"
    by (rule exI [of _ "''b''"]) (simp add: one_fails_def)
  let ?S = "Parallel_Invoke go_quote (NewParallelAny one_fails [''a'', ''b'']) 3"
  note fail = Parallel_Invoke_all_or_nothing [OF r2, of 3 go_quote, THEN conjunct2, THEN mp, OF bad]
  from fail have ne: "?S \<noteq> {}" by blast
  have qb: "go_quote ''b'' = [CHR 0x22] @ ''b'' @ [CHR 0x22]"
    by (simp add: go_quote_def quote_char_def)
  have only: "out = Failed ?lit" if "out \<in> ?S" for out
  proof -
    from fail that obtain k fn e where k: "one_fails k = Some fn" "fn 3 = Inl e"
      "out = Failed (branch_error go_quote k e)" "Unwrap (branch_error go_quote k e) = Some e"
      "Error (branch_error go_quote k e) = ''parallel branch '' @ go_quote k @ '': '' @ Error e"
      by blast
    from k(1,2) have ke: "k = ''b''" "e = ErrorString ''boom''"
      by (auto simp add: one_fails_def split: if_splits)
    from error_from_parts [OF k(4)] k(5) have "branch_error go_quote k e = ?lit"
      by (simp add: ke qb)
    with k(3) show ?thesis by simp
  qed
  from ne only have "?S = {Failed ?lit}" by blast
  with r1 r2 res(1) res(2) a b d show ?thesis by auto
qed

subsection \<open>Properties of Assign\<close>

lemma deref_update: "input \<noteq> MapRef r \<Longrightarrow> deref input (h[r := m]) = deref input h"
  by (cases input) simp_all

lemma assign_loop_frame:
  "assign_loop ks adds input r h = (out, h') \<Longrightarrow>
   length h' = length h \<and> (\<forall>i. i \<noteq> r \<longrightarrow> h' ! i = h ! i)"
proof (induction ks arbitrary: h)
  case Nil
  then show ?case by simp
next
  case (Cons key ks)
  show ?case
  proof (cases "adds key")
    case None
    with Cons.prems show ?thesis by simp
  next
    case (Some fn)
    show ?thesis
    proof (cases "fn (deref input h)")
      case (Inl e)
      with Cons.prems Some show ?thesis by simp
    next
      case (Inr val)
      with Cons.prems Some
      have "assign_loop ks adds input r (h[r := (h ! r)(key \<mapsto> val)]) = (out, h')"
        by simp
      from Cons.IH [OF this] show ?thesis by simp
    qed
  qed
qed

lemma addition_value_Some:
  "addition_value adds input k = Some v \<longleftrightarrow> (\<exists>fn. adds k = Some fn \<and> fn input = Inr v)"
  by (cases "adds k"; cases "the (adds k) input") (simp_all add: addition_value_def)

lemma addition_failure_Some:
  "addition_failure adds input k = Some e \<longleftrightarrow> (\<exists>fn. adds k = Some fn \<and> fn input = Inl e)"
  by (cases "adds k"; cases "the (adds k) input") (simp_all add: addition_failure_def)

lemma assign_loop_ok:
  assumes "input \<noteq> MapRef r" and "r < length h"
    and "\<forall>key\<in>set ks. \<exists>v. addition_value adds (deref input h) key = Some v"
  shows "assign_loop ks adds input r h =
           (Ok (), h[r := (h ! r) ++ (addition_value adds (deref input h) |` set ks)])"
  using assms
proof (induction ks arbitrary: h)
  case Nil
  then show ?case by simp
next
  case (Cons key ks)
  let ?view = "deref input h"
  from Cons.prems(3) obtain val where val: "addition_value adds ?view key = Some val"
    by auto
  then obtain fn where fn: "adds key = Some fn" "fn ?view = Inr val"
    unfolding addition_value_Some by blast
  let ?h1 = "h[r := (h ! r)(key \<mapsto> val)]"
  have view: "deref input ?h1 = ?view"
    using Cons.prems(1) by (rule deref_update)
  have len: "r < length ?h1" using Cons.prems(2) by simp
  have all: "\<forall>k\<in>set ks. \<exists>v. addition_value adds (deref input ?h1) k = Some v"
    using Cons.prems(3) view by simp
  have maps: "((h ! r)(key \<mapsto> val)) ++ (addition_value adds ?view |` set ks) =
              (h ! r) ++ (addition_value adds ?view |` set (key # ks))"
    using val by (auto simp add: fun_eq_iff map_add_def restrict_map_def split: option.splits)
  have "assign_loop (key # ks) adds input r h = assign_loop ks adds input r ?h1"
    using fn by simp
  also have "\<dots> = (Ok (), ?h1[r := (?h1 ! r) ++ (addition_value adds (deref input ?h1) |` set ks)])"
    using Cons.IH [OF Cons.prems(1) len all] .
  also have "\<dots> = (Ok (), h[r := (h ! r) ++ (addition_value adds ?view |` set (key # ks))])"
    using Cons.prems(2) by (simp add: view maps)
  finally show ?case .
qed

lemma assign_loop_fail:
  assumes "input \<noteq> MapRef r"
    and "\<forall>key\<in>set ks. adds key \<noteq> None"
    and "\<exists>key\<in>set ks. addition_failure adds (deref input h) key \<noteq> None"
  shows "\<exists>key\<in>set ks. \<exists>e h'. addition_failure adds (deref input h) key = Some e \<and>
           assign_loop ks adds input r h = (Failed e, h')"
  using assms
proof (induction ks arbitrary: h)
  case Nil
  then show ?case by simp
next
  case (Cons key ks)
  let ?view = "deref input h"
  from Cons.prems(2) obtain fn where fn: "adds key = Some fn" by auto
  show ?case
  proof (cases "fn ?view")
    case (Inl e)
    with fn have "addition_failure adds ?view key = Some e"
      and "assign_loop (key # ks) adds input r h = (Failed e, h)"
      by (simp_all add: addition_failure_def)
    then show ?thesis by auto
  next
    case (Inr val)
    let ?h1 = "h[r := (h ! r)(key \<mapsto> val)]"
    have view: "deref input ?h1 = ?view"
      using Cons.prems(1) by (rule deref_update)
    from Inr fn have "addition_failure adds ?view key = None"
      by (simp add: addition_failure_def)
    with Cons.prems(3) have ex: "\<exists>k\<in>set ks. addition_failure adds (deref input ?h1) k \<noteq> None"
      unfolding view by auto
    from Cons.prems(2) have nn: "\<forall>k\<in>set ks. adds k \<noteq> None" by simp
    from Cons.IH [OF Cons.prems(1) nn ex] obtain k e h' where
      "k \<in> set ks" "addition_failure adds ?view k = Some e"
      "assign_loop ks adds input r ?h1 = (Failed e, h')"
      unfolding view by blast
    moreover have "assign_loop (key # ks) adds input r h = assign_loop ks adds input r ?h1"
      using fn Inr by simp
    ultimately show ?thesis by auto
  qed
qed


lemma Assign_Invoke_unfold:
  assumes "src < length h"
  shows "Assign_Invoke (NewAssign adds order) (MapRef src) h =
     (case assign_loop order adds (MapRef src) (length h) (h @ [h ! src]) of
           (Ok u, h3) \<Rightarrow> (Ok (length h), h3)
         | (Failed err, h3) \<Rightarrow> (Failed err, h3)
         | (Panicked m, h3) \<Rightarrow> (Panicked m, h3))"
  using assms by (simp add: Assign_Invoke_def NewAssign_def Let_def nth_append)

text \<open>
  C9 (as amended). For an Assign built by \<^verbatim>\<open>NewAssign\<close> and an input that is a
  \<^verbatim>\<open>map[string]any\<close>: when every addition function succeeds, \<^verbatim>\<open>Assign.Invoke\<close> returns a
  map it has newly made, whose keys are the keys of the input together with the
  addition keys; a key of the input that is no addition key has the value it has in
  the input, and every addition key has the result of its function (also when the
  input has that key). When an addition function fails, the call returns the nil map
  and the error of an addition function that failed. In both cases every map that
  existed before the call, the input map among them, is as it was.
\<close>

theorem Assign_Invoke_frame:
  assumes "range_order adds order" and "src < length h"
  shows
   "((\<forall>key fn. adds key = Some fn \<longrightarrow> (\<exists>v. fn (MapValue (h ! src)) = Inr v)) \<longrightarrow>
       (\<exists>h'. Assign_Invoke (NewAssign adds order) (MapRef src) h = (Ok (length h), h') \<and>
            length h' = Suc (length h) \<and> (\<forall>i<length h. h' ! i = h ! i) \<and>
            dom (h' ! length h) = dom (h ! src) \<union> dom adds \<and>
            (\<forall>k. k \<notin> dom adds \<longrightarrow> (h' ! length h) k = (h ! src) k) \<and>
            (\<forall>k fn. adds k = Some fn \<longrightarrow>
               (\<exists>v. fn (MapValue (h ! src)) = Inr v \<and> (h' ! length h) k = Some v))))
    \<and> ((\<exists>key fn e. adds key = Some fn \<and> fn (MapValue (h ! src)) = Inl e) \<longrightarrow>
       (\<exists>key fn e h'. adds key = Some fn \<and> fn (MapValue (h ! src)) = Inl e \<and>
            Assign_Invoke (NewAssign adds order) (MapRef src) h = (Failed e, h') \<and>
            (\<forall>i<length h. h' ! i = h ! i)))"
proof (intro conjI impI)
  let ?r = "length h"
  let ?h2 = "h @ [h ! src]"
  let ?in = "MapRef src :: 'b assign_input"
  let ?view = "MapValue (h ! src) :: ('a, 'b) input_value"
  from assms(1) have dom: "set order = dom adds" by (simp add: range_order_def)
  have ne: "?in \<noteq> MapRef ?r" using assms(2) by simp
  have view: "deref ?in ?h2 = ?view" using assms(2) by (simp add: nth_append)
  note unf = Assign_Invoke_unfold [OF assms(2), of adds order]
  {
    assume ok: "\<forall>key fn. adds key = Some fn \<longrightarrow> (\<exists>v. fn ?view = Inr v)"
    have val: "\<exists>v. fn ?view = Inr v \<and> addition_value adds ?view k = Some v"
      if "adds k = Some fn" for k fn
    proof -
      from ok that obtain v where "fn ?view = Inr v" by blast
      with that show ?thesis by (simp add: addition_value_def)
    qed
    have all: "\<forall>key\<in>set order. \<exists>v. addition_value adds (deref ?in ?h2) key = Some v"
      unfolding view using dom val by blast
    let ?m = "(h ! src) ++ (addition_value adds ?view |` set order)"
    have loop: "assign_loop order adds ?in ?r ?h2 = (Ok (), ?h2[?r := ?m])"
      using assign_loop_ok [OF ne _ all] assms(2) by (simp add: nth_append)
    have res: "Assign_Invoke (NewAssign adds order) ?in h = (Ok ?r, h @ [?m])"
      unfolding unf loop by simp
    have at: "(h @ [?m]) ! ?r = ?m" by simp
    have old: "\<forall>i<length h. (h @ [?m]) ! i = h ! i" by (simp add: nth_append)
    have dm: "dom ?m = dom (h ! src) \<union> dom adds"
    proof -
      have "dom (addition_value adds ?view |` set order) = dom adds"
        using dom val by (auto simp add: restrict_map_def dom_def addition_value_Some)
      then show ?thesis by auto
    qed
    have keep: "\<forall>k. k \<notin> dom adds \<longrightarrow> ?m k = (h ! src) k"
      using dom by (simp add: map_add_def restrict_map_def)
    have new: "\<forall>k fn. adds k = Some fn \<longrightarrow> (\<exists>v. fn ?view = Inr v \<and> ?m k = Some v)"
    proof (intro allI impI)
      fix k fn
      assume a: "adds k = Some fn"
      from val [OF a] obtain v where v: "fn ?view = Inr v" "addition_value adds ?view k = Some v"
        by blast
      from a dom have "k \<in> set order" by auto
      with v show "\<exists>v. fn ?view = Inr v \<and> ?m k = Some v"
        by (simp add: map_add_def restrict_map_def)
    qed
    show "\<exists>h'. Assign_Invoke (NewAssign adds order) ?in h = (Ok ?r, h') \<and>
            length h' = Suc ?r \<and> (\<forall>i<length h. h' ! i = h ! i) \<and>
            dom (h' ! ?r) = dom (h ! src) \<union> dom adds \<and>
            (\<forall>k. k \<notin> dom adds \<longrightarrow> (h' ! ?r) k = (h ! src) k) \<and>
            (\<forall>k fn. adds k = Some fn \<longrightarrow>
               (\<exists>v. fn ?view = Inr v \<and> (h' ! ?r) k = Some v))"
    proof (intro exI [of _ "h @ [?m]"] conjI)
      show "Assign_Invoke (NewAssign adds order) ?in h = (Ok ?r, h @ [?m])" by (rule res)
      show "length (h @ [?m]) = Suc ?r" by simp
      show "\<forall>i<length h. (h @ [?m]) ! i = h ! i" by (rule old)
      show "dom ((h @ [?m]) ! ?r) = dom (h ! src) \<union> dom adds"
        unfolding at by (rule dm)
      show "\<forall>k. k \<notin> dom adds \<longrightarrow> ((h @ [?m]) ! ?r) k = (h ! src) k"
        unfolding at by (rule keep)
      show "\<forall>k fn. adds k = Some fn \<longrightarrow>
               (\<exists>v. fn ?view = Inr v \<and> ((h @ [?m]) ! ?r) k = Some v)"
        unfolding at by (rule new)
    qed
  }
  {
    assume "\<exists>key fn e. adds key = Some fn \<and> fn ?view = Inl e"
    then obtain key fn e where k: "adds key = Some fn" "fn ?view = Inl e" by blast
    then have "key \<in> set order" "addition_failure adds ?view key = Some e"
      using dom by (auto simp add: addition_failure_Some)
    then have ex: "\<exists>key\<in>set order. addition_failure adds (deref ?in ?h2) key \<noteq> None"
      unfolding view by auto
    have nn: "\<forall>key\<in>set order. adds key \<noteq> None" using dom by auto
    from assign_loop_fail [OF ne nn ex] obtain k' e' h' where
      f: "addition_failure adds ?view k' = Some e'"
      and loop: "assign_loop order adds ?in ?r ?h2 = (Failed e', h')"
      unfolding view by blast
    from f obtain fn' where fn': "adds k' = Some fn'" "fn' ?view = Inl e'"
      unfolding addition_failure_Some by blast
    from assign_loop_frame [OF loop] have "\<forall>i<length h. h' ! i = h ! i"
      by (simp add: nth_append)
    moreover have "Assign_Invoke (NewAssign adds order) ?in h = (Failed e', h')"
      unfolding unf loop by simp
    ultimately show "\<exists>key fn e h'. adds key = Some fn \<and> fn ?view = Inl e \<and>
            Assign_Invoke (NewAssign adds order) ?in h = (Failed e, h') \<and>
            (\<forall>i<length h. h' ! i = h ! i)"
      using fn' by blast
  }
qed


theorem Assign_Invoke_frame_witness:
  "range_order add_context [''context''] \<and> range_order failing_addition [''context'']
   \<and> (\<exists>h'. Assign_Invoke (NewAssign add_context [''context'']) (MapRef 0) input_heap = (Ok 1, h') \<and>
          (h' ! 1) ''a'' = Some 1 \<and> (h' ! 1) ''context'' = Some 7 \<and> h' ! 0 = input_heap ! 0)
   \<and> (\<exists>h'. Assign_Invoke (NewAssign failing_addition [''context'']) (MapRef 0) input_heap =
          (Failed (ErrorString ''no retriever''), h') \<and> h' ! 0 = input_heap ! 0)"
proof -
  have r1: "range_order add_context [''context'']"
    by (auto simp add: range_order_def add_context_def split: if_splits)
  have r2: "range_order failing_addition [''context'']"
    by (auto simp add: range_order_def failing_addition_def split: if_splits)
  have len: "0 < length input_heap" by (simp add: input_heap_def)
  have ok: "\<forall>key fn. add_context key = Some fn \<longrightarrow>
      (\<exists>v. fn (MapValue (input_heap ! 0)) = Inr v)"
    by (auto simp add: add_context_def split: if_splits)
  from Assign_Invoke_frame [OF r1 len, THEN conjunct1, THEN mp, OF ok]
  obtain h' where h':
    "Assign_Invoke (NewAssign add_context [''context'']) (MapRef 0) input_heap =
       (Ok (length input_heap), h')"
    "\<forall>i<length input_heap. h' ! i = input_heap ! i"
    "\<forall>k. k \<notin> dom add_context \<longrightarrow> (h' ! length input_heap) k = (input_heap ! 0) k"
    "\<forall>k fn. add_context k = Some fn \<longrightarrow>
       (\<exists>v. fn (MapValue (input_heap ! 0)) = Inr v \<and> (h' ! length input_heap) k = Some v)"
    by blast
  have a: "(h' ! 1) ''a'' = Some 1"
    using h'(3) [rule_format, of "''a''"] by (simp add: add_context_def input_heap_def)
  have c: "(h' ! 1) ''context'' = Some 7"
    using h'(4) [rule_format, of "''context''" "\<lambda>_. Inr 7"]
    by (simp add: add_context_def input_heap_def)
  have z: "h' ! 0 = input_heap ! 0"
    using h'(2) by (simp add: input_heap_def)
  have first: "\<exists>h'. Assign_Invoke (NewAssign add_context [''context'']) (MapRef 0) input_heap = (Ok 1, h') \<and>
          (h' ! 1) ''a'' = Some 1 \<and> (h' ! 1) ''context'' = Some 7 \<and> h' ! 0 = input_heap ! 0"
    using h'(1) a c z by (auto simp add: input_heap_def)
  have bad: "\<exists>key fn e. failing_addition key = Some fn \<and> fn (MapValue (input_heap ! 0)) = Inl e"
    by (rule exI [of _ "''context''"]) (simp add: failing_addition_def)
  from Assign_Invoke_frame [OF r2 len, THEN conjunct2, THEN mp, OF bad]
  obtain key fn e h'' where f:
    "failing_addition key = Some fn" "fn (MapValue (input_heap ! 0)) = Inl e"
    "Assign_Invoke (NewAssign failing_addition [''context'']) (MapRef 0) input_heap = (Failed e, h'')"
    "\<forall>i<length input_heap. h'' ! i = input_heap ! i"
    by blast
  from f(1,2) have "e = ErrorString ''no retriever''"
    by (auto simp add: failing_addition_def split: if_splits)
  with f(3,4) have second: "\<exists>h'. Assign_Invoke (NewAssign failing_addition [''context'']) (MapRef 0) input_heap =
          (Failed (ErrorString ''no retriever''), h') \<and> h' ! 0 = input_heap ! 0"
    by (auto simp add: input_heap_def)
  from r1 r2 first second show ?thesis by blast
qed

text \<open>
  The claim C9 as stated fails where an addition key is also a key of the input: the
  input has \<open>a = 1\<close>, the addition for \<open>a\<close> returns \<open>2\<close>, and the map returned has
  \<open>a = 2\<close>.
\<close>

theorem Assign_overwrites_input_key_counterexample:
  "range_order overwrite_a [''a'']
   \<and> (input_heap ! 0) ''a'' = Some 1
   \<and> fst (Assign_Invoke (NewAssign overwrite_a [''a'']) (MapRef 0) input_heap) = Ok 1
   \<and> (snd (Assign_Invoke (NewAssign overwrite_a [''a'']) (MapRef 0) input_heap) ! 1) ''a'' = Some 2"
  by (auto simp add: range_order_def overwrite_a_def input_heap_def Assign_Invoke_def
      NewAssign_def Let_def split: if_splits)

subsection \<open>Properties of AgentExecutor\<close>

lemma exec_action_plan_calls:
  "exec_action fmtq e cfg action (lg, s, tr) = (lg', s', tr') \<Longrightarrow>
   filter is_plan_call tr' = filter is_plan_call tr \<and> prefix tr tr'"
  by (auto simp add: exec_action_def Let_def split: option.splits prod.splits sum.splits)

lemma exec_actions_plan_calls:
  "exec_actions fmtq e cfg acts (lg, s, tr) = (lg', s', tr') \<Longrightarrow>
   filter is_plan_call tr' = filter is_plan_call tr \<and> prefix tr tr'"
proof (induction acts arbitrary: lg s tr)
  case Nil
  then show ?case by simp
next
  case (Cons a acts)
  obtain st1 s1 tr1 where one: "exec_action fmtq e cfg a (lg, s, tr) = (st1, s1, tr1)"
    by (cases "exec_action fmtq e cfg a (lg, s, tr)") auto
  with Cons.prems have "exec_actions fmtq e cfg acts (st1, s1, tr1) = (lg', s', tr')"
    by simp
  from Cons.IH [OF this] exec_action_plan_calls [OF one] show ?case
    by (auto intro: prefix_order.trans)
qed

lemma iteration_never_finishes:
  assumes "never_finishes e input" and "ctx s = None"
  shows "\<exists>lg' s' tr'. agent_iteration fmtq e ctx cfg input (lg, s, tr) = Inr (lg', s', tr') \<and>
           length (filter is_plan_call tr') = Suc (length (filter is_plan_call tr))"
proof -
  obtain r s1 where plan: "Plan (agent e) lg input s = (r, s1)"
    by (cases "Plan (agent e) lg input s")
  from assms(1) plan have nf: "case r of Inl err \<Rightarrow> handleParsingErrors e | Inr None \<Rightarrow> False
        | Inr (Some outp) \<Rightarrow> Finish outp = None"
    unfolding never_finishes_def by (metis fst_conv)
  show ?thesis
  proof (cases r)
    case (Inl err)
    with nf plan assms(2) show ?thesis
      by (simp add: agent_iteration_def)
  next
    case (Inr out)
    with nf obtain outp where out: "out = Some outp" "Finish outp = None"
      by (cases out) auto
    obtain st2 s2 tr2 where ex: "exec_actions fmtq e cfg (Actions outp)
        (lg, s1, tr @ [PlanCall lg]) = (st2, s2, tr2)"
      by (cases "exec_actions fmtq e cfg (Actions outp) (lg, s1, tr @ [PlanCall lg])") auto
    from exec_actions_plan_calls [OF ex]
    have "length (filter is_plan_call tr2) = Suc (length (filter is_plan_call tr))"
      by simp
    with Inr out plan assms(2) ex show ?thesis
      by (simp add: agent_iteration_def)
  qed
qed

lemma loop_never_finishes:
  assumes "never_finishes e input" and "\<forall>s. ctx s = None"
  shows "iterations \<le> maxIterations e \<Longrightarrow> n = nat (maxIterations e - iterations) \<Longrightarrow>
         \<exists>lg' s' tr'. agent_loop fmtq e ctx cfg input iterations (lg, s, tr) =
             (Failed (iteration_limit_error (maxIterations e)), lg', s', tr') \<and>
           length (filter is_plan_call tr') = length (filter is_plan_call tr) + n"
proof (induction n arbitrary: iterations lg s tr)
  case 0
  then have "\<not> iterations < maxIterations e" by simp
  then show ?case by (simp add: agent_loop.simps)
next
  case (Suc n)
  then have lt: "iterations < maxIterations e" by simp
  from assms(2) have "ctx s = None" by simp
  from iteration_never_finishes [where ctx = ctx and s = s and fmtq = fmtq and cfg = cfg
      and lg = lg and tr = tr, OF assms(1) this]
  obtain st1 s1 tr1 where it: "agent_iteration fmtq e ctx cfg input (lg, s, tr) = Inr (st1, s1, tr1)"
    and cnt: "length (filter is_plan_call tr1) = Suc (length (filter is_plan_call tr))"
    by blast
  have le: "iterations + 1 \<le> maxIterations e" using lt by simp
  have n: "n = nat (maxIterations e - (iterations + 1))" using Suc.prems by simp
  from Suc.IH [OF le n, of st1 s1 tr1] obtain lg' s' tr' where
    "agent_loop fmtq e ctx cfg input (iterations + 1) (st1, s1, tr1) =
       (Failed (iteration_limit_error (maxIterations e)), lg', s', tr')"
    "length (filter is_plan_call tr') = length (filter is_plan_call tr1) + n"
    by blast
  with lt it cnt show ?case
    by (simp add: agent_loop.simps [of fmtq e ctx cfg input iterations])
qed

lemma iteration_limit_error_distinct:
  "iteration_limit_error n \<noteq> planning_error err"
  "Error (iteration_limit_error n) \<noteq> Error (planning_error err)"
  "Unwrap (iteration_limit_error n) = None"
  by (simp_all add: iteration_limit_error_def planning_error_def)

text \<open>
  C3. For an executor with maximum \<open>M \<ge> 0\<close>, a planner that never finishes (at every
  call it returns an output without a finish, or an error that the executor is set to
  tolerate) and a context that is never cancelled, \<^verbatim>\<open>AgentExecutor.Invoke\<close> terminates,
  makes exactly \<open>M\<close> calls of the planner and returns no result but the error "agent
  exceeded maximum iterations (M)". That error wraps nothing, and it is not a planning
  error, neither as a value nor by its message.
\<close>

theorem AgentExecutor_iteration_limit:
  assumes "0 \<le> maxIterations e" and "never_finishes e input" and "\<forall>s. ctx s = None"
  shows "(\<exists>lg s' tr. AgentExecutor_Invoke fmtq e ctx cfg input s =
             (Failed (iteration_limit_error (maxIterations e)), lg, s', tr) \<and>
           length (filter is_plan_call tr) = nat (maxIterations e))
         \<and> (\<forall>err. iteration_limit_error (maxIterations e) \<noteq> planning_error err \<and>
               Error (iteration_limit_error (maxIterations e)) \<noteq> Error (planning_error err))
         \<and> Unwrap (iteration_limit_error (maxIterations e)) = None"
proof -
  from loop_never_finishes [OF assms(2,3), where iterations = 0 and n = "nat (maxIterations e)"
      and fmtq = fmtq and cfg = cfg and lg = "[]" and tr = "[]"] assms(1)
  have "\<exists>lg s' tr. AgentExecutor_Invoke fmtq e ctx cfg input s =
             (Failed (iteration_limit_error (maxIterations e)), lg, s', tr) \<and>
           length (filter is_plan_call tr) = nat (maxIterations e)"
    by (simp add: AgentExecutor_Invoke_def)
  then show ?thesis
    by (simp add: iteration_limit_error_distinct)
qed


lemma show_int_3: "show_int 3 = ''3''"
  by (simp add: show_int_def show_nat.simps digit_char_def)

theorem AgentExecutor_iteration_limit_witness:
  "0 \<le> maxIterations (NewAgentExecutor looping_planner [calculator] [WithMaxIterations 3])
   \<and> never_finishes (NewAgentExecutor looping_planner [calculator] [WithMaxIterations 3]) None
   \<and> (\<exists>lg tr. AgentExecutor_Invoke plain_quote
          (NewAgentExecutor looping_planner [calculator] [WithMaxIterations 3])
          never_cancelled no_callbacks None 0 =
          (Failed (ErrorString ''agent exceeded maximum iterations (3)''), lg, 3, tr) \<and>
        length (filter is_plan_call tr) = 3)"
proof -
  let ?e = "NewAgentExecutor looping_planner [calculator] [WithMaxIterations 3]"
  have m: "maxIterations ?e = 3"
    by (simp add: NewAgentExecutor_def WithMaxIterations_def)
  have ag: "agent ?e = looping_planner"
    by (simp add: NewAgentExecutor_def WithMaxIterations_def)
  have nf: "never_finishes ?e None"
    unfolding never_finishes_def ag by (simp add: looping_planner_def)
  have nc: "\<forall>s. never_cancelled s = None"
    by (simp add: never_cancelled_def)
  have pos: "0 \<le> maxIterations ?e" by (simp add: m)
  from AgentExecutor_iteration_limit [OF pos nf nc, of plain_quote no_callbacks 0, THEN conjunct1]
  obtain lg s' tr where run: "AgentExecutor_Invoke plain_quote ?e never_cancelled no_callbacks None 0 =
      (Failed (iteration_limit_error (maxIterations ?e)), lg, s', tr)"
    and cnt: "length (filter is_plan_call tr) = nat (maxIterations ?e)"
    by blast
  have cb: "Callbacks no_callbacks = []"
    by (simp add: no_callbacks_def)
  have tm: "toolMap ?e ''calculator'' = Some calculator"
    by (simp add: NewAgentExecutor_def WithMaxIterations_def calculator_def)
  have it: "agent_iteration plain_quote ?e never_cancelled no_callbacks None (l, s, t) =
      Inr (l @ [\<lparr>Action = use_tool ''calculator'', Observation = ''42''\<rparr>], Suc s,
           t @ [PlanCall l, ToolRun ''calculator'' ''6*7''])" for l s t
  proof -
    have pl: "Plan looping_planner l None s =
        (Inr (Some \<lparr>Actions = [use_tool ''calculator''], Finish = None\<rparr>), Suc s)"
      by (simp add: looping_planner_def)
    have rn: "Run calculator inp x = (Inr ''42'', x)" for inp x
      by (simp add: calculator_def)
    have tl: "Tool (use_tool ''calculator'') = ''calculator''"
      "ToolInput (use_tool ''calculator'') = ''6*7''"
      by (simp_all add: use_tool_def)
    show ?thesis
      unfolding agent_iteration_def ag
      by (simp add: never_cancelled_def pl exec_action_def no_callbacks_def tl tm rn)
  qed
  have "snd (snd (AgentExecutor_Invoke plain_quote ?e never_cancelled no_callbacks None 0)) =
      (3, [PlanCall [], ToolRun ''calculator'' ''6*7'',
           PlanCall [\<lparr>Action = use_tool ''calculator'', Observation = ''42''\<rparr>],
           ToolRun ''calculator'' ''6*7'',
           PlanCall [\<lparr>Action = use_tool ''calculator'', Observation = ''42''\<rparr>,
                     \<lparr>Action = use_tool ''calculator'', Observation = ''42''\<rparr>],
           ToolRun ''calculator'' ''6*7''])"
    by (simp add: AgentExecutor_Invoke_def agent_loop.simps m it cb)
  with run have "s' = 3" by simp
  with run cnt pos nf show ?thesis
    by (auto simp add: m iteration_limit_error_def show_int_3)
qed











lemma no_callbacks_fields: "Callbacks no_callbacks = []" "RunID no_callbacks = ''run''"
  by (simp_all add: no_callbacks_def)







text \<open>
  C10. When \<^verbatim>\<open>Plan\<close> returns an output with both a finish and a list of actions, the
  iteration returns as for a finish: the result is the return-value map of the finish
  (with the step log stored under "intermediate_steps" when the executor is set to
  return it), the step log is as it was, the only call made is the call of the planner,
  and the world is changed by the finish callbacks alone. The actions play no part: no
  tool is run and no step is appended.
\<close>

theorem AgentExecutor_finish_wins:
  "iterations < maxIterations e \<and> ctx s = None \<and>
   Plan (agent e) lg input s = (Inr (Some \<lparr>Actions = acts, Finish = Some fin\<rparr>), s1) \<longrightarrow>
     agent_loop fmtq e ctx cfg input iterations (lg, s, tr) =
       (fst (finish e cfg fin lg s1), lg, snd (finish e cfg fin lg s1), tr @ [PlanCall lg])
     \<and> (\<not> returnIntermediateSteps e \<longrightarrow>
          finish e cfg fin lg s1 =
            (Ok (ReturnValues fin),
             notify2 (Callbacks cfg) (OnAgentFinish (ReturnValues fin) (FinishLog fin) (RunID cfg))
               (OnChainEnd (ReturnValues fin) (RunID cfg)) s1))
     \<and> (\<forall>m. returnIntermediateSteps e \<and> ReturnValues fin = Some m \<longrightarrow>
          finish e cfg fin lg s1 =
            (Ok (Some (m(''intermediate_steps'' \<mapsto> Steps lg))),
             notify2 (Callbacks cfg)
               (OnAgentFinish (Some (m(''intermediate_steps'' \<mapsto> Steps lg))) (FinishLog fin) (RunID cfg))
               (OnChainEnd (Some (m(''intermediate_steps'' \<mapsto> Steps lg))) (RunID cfg)) s1))"
proof (intro impI conjI allI)
  assume a: "iterations < maxIterations e \<and> ctx s = None \<and>
   Plan (agent e) lg input s = (Inr (Some \<lparr>Actions = acts, Finish = Some fin\<rparr>), s1)"
  then show "agent_loop fmtq e ctx cfg input iterations (lg, s, tr) =
       (fst (finish e cfg fin lg s1), lg, snd (finish e cfg fin lg s1), tr @ [PlanCall lg])"
    by (simp add: agent_loop.simps [of fmtq e ctx cfg input iterations] agent_iteration_def
        split: prod.split)
next
  assume "\<not> returnIntermediateSteps e"
  then show "finish e cfg fin lg s1 =
            (Ok (ReturnValues fin),
             notify2 (Callbacks cfg) (OnAgentFinish (ReturnValues fin) (FinishLog fin) (RunID cfg))
               (OnChainEnd (ReturnValues fin) (RunID cfg)) s1)"
    by (simp add: finish_def Let_def)
next
  fix m
  assume "returnIntermediateSteps e \<and> ReturnValues fin = Some m"
  then show "finish e cfg fin lg s1 =
            (Ok (Some (m(''intermediate_steps'' \<mapsto> Steps lg))),
             notify2 (Callbacks cfg)
               (OnAgentFinish (Some (m(''intermediate_steps'' \<mapsto> Steps lg))) (FinishLog fin) (RunID cfg))
               (OnChainEnd (Some (m(''intermediate_steps'' \<mapsto> Steps lg))) (RunID cfg)) s1)"
    by (simp add: finish_def Let_def)
qed

lemma both_executor_fields:
  "agent both_executor = both_planner"
  "maxIterations both_executor = 15"
  "returnIntermediateSteps both_executor = False"
  by (simp_all add: both_executor_def NewAgentExecutor_def)

theorem AgentExecutor_finish_wins_witness:
  "AgentExecutor_Invoke plain_quote both_executor never_cancelled no_callbacks None 0 =
     (Ok (ReturnValues the_answer), [], 1, [PlanCall []])"
proof -
  have plan: "Plan (agent both_executor) [] None 0 =
      (Inr (Some \<lparr>Actions = [use_tool ''calculator''], Finish = Some the_answer\<rparr>), 1)"
    by (simp add: both_executor_fields both_planner_def)
  have pre: "0 < maxIterations both_executor \<and> never_cancelled 0 = None \<and>
      Plan (agent both_executor) [] None 0 =
        (Inr (Some \<lparr>Actions = [use_tool ''calculator''], Finish = Some the_answer\<rparr>), 1)"
    using plan by (simp add: both_executor_fields never_cancelled_def)
  from AgentExecutor_finish_wins [where e = both_executor and ctx = never_cancelled
      and iterations = 0 and s = 0 and lg = "[]" and input = None
      and acts = "[use_tool ''calculator'']" and fin = the_answer and ?s1.0 = 1
      and fmtq = plain_quote and cfg = no_callbacks and tr = "[]", THEN mp, OF pre]
  show ?thesis
    by (simp add: AgentExecutor_Invoke_def both_executor_fields no_callbacks_fields)
qed

end
